theory Spec2Isabelle
  imports Complex_Main "HOL-Library.Multiset" "HOL-Library.Sublist" "HOL-Library.AList"
    "HOL-Library.Log_Nat"
begin

section \<open>Data model of the rate-limit tester\<close>

text \<open>
  The two dataclasses of \<^verbatim>\<open>rate_limiter_checker.py\<close>. The field \<^verbatim>\<open>term\<close> of
  \<^verbatim>\<open>RequestResult\<close> is called \<open>term_used\<close> here, since \<open>term\<close> is a keyword.
  Time values (clock readings, latencies, intervals, sleeps) are real numbers. The
  arithmetic on rates and durations that decides how many requests a run issues is
  IEEE double arithmetic: a product or sum is the exact result rounded to the nearest
  double, ties to even, or an infinity.
\<close>

record RequestResult =
  status_code :: int
  latency_ms :: real
  timestamp :: real
  headers :: "(string \<times> string) list"
  term_used :: string
  error :: "string option"
  body_preview :: string

record TestReport =
  results :: "RequestResult list"
  start_time :: real
  end_time :: real

text \<open>
  The \<^verbatim>\<open>CONFIG\<close> dictionary always carries the keys url, method, params, headers and
  body (\<^verbatim>\<open>main\<close> only overrides their values), so it is a record; a dictionary of
  strings is an association list in insertion order.
\<close>

datatype json =
    JNull
  | JBool bool
  | JNumber real
  | JString string
  | JArray "json list"
  | JObject "(string \<times> json) list"

record config =
  cfg_url :: string
  cfg_method :: string
  cfg_params :: "(string \<times> string) list"
  cfg_headers :: "(string \<times> string) list"
  cfg_body :: json

datatype py_error =
    ZeroDivisionError
  | OverflowError
  | ValueError
  | UncaughtException string

section \<open>The outside world: network, clock and console\<close>

text \<open>
  What \<^verbatim>\<open>requests.request\<close> is called with, and what comes back: a response (status
  code, headers, body text) or an exception raised somewhere inside the \<^verbatim>\<open>try\<close> block
  of \<^verbatim>\<open>send_request\<close> (connection error, timeout, decoding error, ...), carried as
  its message. The network is a parameter: its answer to the k-th call of the run,
  together with the seconds the call took.
\<close>

record http_call =
  call_method :: string
  call_url :: string
  call_headers :: "(string \<times> string) list"
  call_params :: "(string \<times> string) list"
  call_timeout :: nat
  call_json :: "json option"

datatype http_reply = Response int "(string \<times> string) list" string | Raised string

type_synonym network = "nat \<Rightarrow> http_call \<Rightarrow> http_reply \<times> real"

text \<open>The conclusions that the comparison test prints (lines 448 to 456).\<close>

datatype conclusion = PER_TERM | HYBRID | PER_IP | NO_LIMITS_HIT

text \<open>
  Of the console output only the lines that carry a decision are kept: the verdict of a
  ramp step (lines 263 and 266) and the conclusion of the comparison. Banners and the
  per-request progress lines are left out.
\<close>

datatype line =
    RateLimitHit real real
  | RateOK real int int
  | Conclusion conclusion

datatype event = Sent nat http_call | Slept real | Printed line

record world =
  clock :: real
  calls :: nat
  events :: "event list"

definition sleep :: "real \<Rightarrow> world \<Rightarrow> world" where
  "sleep t w = w\<lparr>clock := clock w + t, events := events w @ [Slept t]\<rparr>"

definition print_line :: "line \<Rightarrow> world \<Rightarrow> world" where
  "print_line l w = w\<lparr>events := events w @ [Printed l]\<rparr>"

section \<open>Python arithmetic and strings\<close>

definition py_int :: "real \<Rightarrow> int" where
  \<comment> \<open>\<^verbatim>\<open>int(x)\<close> on a float truncates towards zero.\<close>
  "py_int x = (if 0 \<le> x then \<lfloor>x\<rfloor> else \<lceil>x\<rceil>)"

definition py_range :: "int \<Rightarrow> nat list" where
  \<comment> \<open>\<^verbatim>\<open>range(n)\<close>: empty when \<open>n \<le> 0\<close>.\<close>
  "py_range n = [0..<nat n]"

text \<open>
  IEEE 754 binary64. The exponent of \<open>x\<close> is \<open>floor (log2 |x|)\<close>, computed from bit
  lengths; the quantum of \<open>x\<close> is \<open>2 ^ (e - 52)\<close> for the exponent clamped at
  \<open>-1022\<close> (subnormals); a result of magnitude \<open>2 ^ 1024\<close> or more is an infinity.
  Signed zeros are not told apart.
\<close>

datatype pyfloat = Finite real | PosInf | NegInf | NaN

definition pow2 :: "int \<Rightarrow> real" where
  "pow2 e = (if 0 \<le> e then 2 ^ nat e else 1 / 2 ^ nat (- e))"

definition float_exponent :: "real \<Rightarrow> int" where
  "float_exponent x =
     (let a = \<bar>x\<bar> in if 1 \<le> a then bitlen \<lfloor>a\<rfloor> - 1 else - bitlen (\<lceil>1 / a\<rceil> - 1))"

definition round_half_even :: "real \<Rightarrow> int" where
  "round_half_even x =
     (let f = \<lfloor>x\<rfloor>; d = x - of_int f
      in if d < 1 / 2 then f else if 1 / 2 < d then f + 1
         else if even f then f else f + 1)"

definition round_double :: "real \<Rightarrow> pyfloat" where
  "round_double x =
     (if x = 0 then Finite 0
      else
        let e = max (float_exponent x) (- 1022);
            q = pow2 (e - 52);
            y = of_int (round_half_even (x / q)) * q
        in if pow2 1024 \<le> y then PosInf
           else if y \<le> - pow2 1024 then NegInf
           else Finite y)"

definition min_double :: real where
  "min_double = pow2 (- 1074)"

definition is_double :: "real \<Rightarrow> bool" where
  "is_double x \<longleftrightarrow> round_double x = Finite x"

definition py_truthy :: "json \<Rightarrow> bool" where
  \<comment> \<open>The truth value of a JSON value as a Python object.\<close>
  "py_truthy v =
     (case v of JNull \<Rightarrow> False | JBool b \<Rightarrow> b | JNumber x \<Rightarrow> x \<noteq> 0 | JString s \<Rightarrow> s \<noteq> []
      | JArray xs \<Rightarrow> xs \<noteq> [] | JObject kvs \<Rightarrow> kvs \<noteq> [])"

definition py_int_of :: "pyfloat \<Rightarrow> py_error + int" where
  \<comment> \<open>\<^verbatim>\<open>int(x)\<close> on a float: an infinity raises OverflowError, a NaN ValueError.\<close>
  "py_int_of x =
     (case x of Finite r \<Rightarrow> Inr (py_int r) | PosInf \<Rightarrow> Inl OverflowError
      | NegInf \<Rightarrow> Inl OverflowError | NaN \<Rightarrow> Inl ValueError)"

definition round1 :: "real \<Rightarrow> real" where
  \<comment> \<open>\<^verbatim>\<open>round(x, 1)\<close>, ties to the even digit.\<close>
  "round1 x =
     (let y = x * 10; f = \<lfloor>y\<rfloor>; d = y - of_int f
      in of_int (if d < 1 / 2 then f else if 1 / 2 < d then f + 1
                 else if even f then f else f + 1) / 10)"

definition upper_char :: "char \<Rightarrow> char" where
  "upper_char c =
     (let n = (of_char c :: nat) in if 97 \<le> n \<and> n \<le> 122 then char_of (n - 32) else c)"

definition lower_char :: "char \<Rightarrow> char" where
  "lower_char c =
     (let n = (of_char c :: nat) in if 65 \<le> n \<and> n \<le> 90 then char_of (n + 32) else c)"

definition is_rate_limit_header :: "string \<Rightarrow> bool" where
  "is_rate_limit_header key =
     (let kl = map lower_char key
      in \<exists>x \<in> set [''rate'', ''limit'', ''remaining'', ''reset'', ''retry'']. sublist x kl)"

section \<open>Request executor: \<^verbatim>\<open>send_request\<close>\<close>

definition failed_result :: "real \<Rightarrow> string option \<Rightarrow> string \<Rightarrow> RequestResult" where
  \<comment> \<open>The \<^verbatim>\<open>except Exception\<close> branch, lines 160 to 168.\<close>
  "failed_result ts term msg =
     \<lparr>status_code = 0, latency_ms = 0, timestamp = ts, headers = [],
      term_used = (case term of None \<Rightarrow> [] | Some t \<Rightarrow> t),
      error = Some msg, body_preview = []\<rparr>"

definition build_call :: "config \<Rightarrow> string option \<Rightarrow> http_call" where
  \<comment> \<open>Lines 126 to 138: the arguments handed to \<^verbatim>\<open>requests.request\<close>.\<close>
  "build_call config term =
     (let method = map upper_char (cfg_method config);
          params = (case term of None \<Rightarrow> cfg_params config
                    | Some t \<Rightarrow> AList.update ''term'' t (cfg_params config))
      in \<lparr>call_method = method, call_url = cfg_url config,
          call_headers = cfg_headers config, call_params = params,
          call_timeout = 30,
          call_json = (if method \<in> set [''POST'', ''PUT'', ''PATCH''] \<and>
                          py_truthy (cfg_body config)
                       then Some (cfg_body config) else None)\<rparr>)"

definition result_term :: "string option \<Rightarrow> http_call \<Rightarrow> string" where
  \<comment> \<open>\<^verbatim>\<open>term or params.get("term", "")\<close>.\<close>
  "result_term term call =
     (let dflt = (case map_of (call_params call) ''term'' of None \<Rightarrow> [] | Some t \<Rightarrow> t)
      in case term of None \<Rightarrow> dflt | Some t \<Rightarrow> (if t \<noteq> [] then t else dflt))"

definition send_request ::
    "network \<Rightarrow> config \<Rightarrow> nat \<Rightarrow> string option \<Rightarrow> world \<Rightarrow> RequestResult \<times> world" where
  "send_request net config request_num term w =
     (let ts = clock w;
          call = build_call config term;
          (reply, secs) = net (calls w) call;
          w' = w\<lparr>clock := clock w + secs, calls := Suc (calls w),
                 events := events w @ [Sent request_num call]\<rparr>
      in case reply of
           Raised msg \<Rightarrow> (failed_result ts term msg, w')
         | Response code hs text \<Rightarrow>
             (\<lparr>status_code = code, latency_ms = round1 (secs * 1000), timestamp = ts,
               headers = filter (\<lambda>(key, val). is_rate_limit_header key) hs,
               term_used = result_term term call,
               error = None,
               body_preview = (if code \<noteq> 200 then take 200 text else [])\<rparr>, w'))"

section \<open>Pacer: \<^verbatim>\<open>run_sustained_test\<close>\<close>

definition pace :: "real \<Rightarrow> real \<Rightarrow> world \<Rightarrow> world" where
  \<comment> \<open>The end of every paced loop body (lines 220 to 223): the compensating sleep.\<close>
  "pace interval loop_start w =
     (let elapsed = clock w - loop_start;
          sleep_time = max 0 (interval - elapsed)
      in if sleep_time > 0 then sleep sleep_time w else w)"



text \<open>Vocabulary for the traces: what a reply puts into \<open>status_code\<close>, and the sleep
  events that a loop body leaves behind for a given interval and elapsed time.\<close>

fun reply_status :: "http_reply \<Rightarrow> int" where
  "reply_status (Response code hs body) = code"
| "reply_status (Raised msg) = 0"

definition pause_events :: "real \<Rightarrow> real \<Rightarrow> event list" where
  "pause_events interval elapsed =
     (if 0 < max 0 (interval - elapsed) then [Slept (max 0 (interval - elapsed))] else [])"

section \<open>Key rotation pool: \<^verbatim>\<open>TERM_POOLS\<close> and \<^verbatim>\<open>run_unique_terms_test\<close>\<close>

definition small_pool :: "string list" where
  "small_pool = [''bill tracker'', ''weather app'', ''fitness coach'', ''photo editor'',
     ''music player'']"

definition medium_pool :: "string list" where
  "medium_pool = [''bill tracker'', ''weather app'', ''fitness coach'', ''photo editor'',
     ''music player'', ''todo list'', ''vpn proxy'', ''calorie counter'',
     ''sleep tracker'', ''meditation app'', ''budget planner'', ''qr scanner'',
     ''pdf reader'', ''video editor'', ''language learn'']"

definition large_pool :: "string list" where
  "large_pool = [''bill tracker'', ''weather app'', ''fitness coach'', ''photo editor'',
     ''music player'', ''todo list'', ''vpn proxy'', ''calorie counter'',
     ''sleep tracker'', ''meditation app'', ''budget planner'', ''qr scanner'',
     ''pdf reader'', ''video editor'', ''language learn'', ''password manager'',
     ''note taking'', ''file manager'', ''screen recorder'', ''email client'',
     ''calendar app'', ''alarm clock'', ''tip calculator'', ''unit converter'',
     ''voice recorder'', ''flashlight app'', ''compass app'', ''level tool'',
     ''white noise'', ''habit tracker'']"

definition TERM_POOLS :: "(string \<times> string list) list" where
  "TERM_POOLS = [(''small'', small_pool), (''medium'', medium_pool), (''large'', large_pool)]"

definition pool_or_large :: "string \<Rightarrow> string list" where
  \<comment> \<open>\<^verbatim>\<open>TERM_POOLS.get(pool_name, TERM_POOLS["large"])\<close>\<close>
  "pool_or_large pool_name =
     (case map_of TERM_POOLS pool_name of None \<Rightarrow> large_pool | Some terms \<Rightarrow> terms)"


definition select_term :: "string list \<Rightarrow> nat \<Rightarrow> py_error + string" where
  \<comment> \<open>\<^verbatim>\<open>terms[i % len(terms)]\<close>; the modulo raises on an empty pool.\<close>
  "select_term terms i =
     (if length terms = 0 then Inl ZeroDivisionError else Inr (terms ! (i mod length terms)))"

fun unique_loop ::
    "network \<Rightarrow> config \<Rightarrow> real \<Rightarrow> string list \<Rightarrow> nat list \<Rightarrow> TestReport \<times> world \<Rightarrow>
       py_error + TestReport \<times> world" where
  "unique_loop net config interval terms [] st = Inr st"
| "unique_loop net config interval terms (i # rest) (report, w) =
     (let loop_start = clock w
      in case select_term terms i of
           Inl e \<Rightarrow> Inl e
         | Inr term \<Rightarrow>
             let (result, w1) = send_request net config i (Some term) w;
                 report1 = report\<lparr>results := results report @ [result]\<rparr>
             in unique_loop net config interval terms rest (report1, pace interval loop_start w1))"

definition run_unique_terms_test ::
    "network \<Rightarrow> config \<Rightarrow> real \<Rightarrow> real \<Rightarrow> string \<Rightarrow> world \<Rightarrow> py_error + TestReport \<times> world" where
  "run_unique_terms_test net config rps duration_secs pool_name w =
     (let report = \<lparr>results = [], start_time = clock w, end_time = 0\<rparr>
      in if rps = 0 then Inl ZeroDivisionError
         else
           let interval = 1 / rps
           in case py_int_of (round_double (rps * duration_secs)) of
                Inl e \<Rightarrow> Inl e
              | Inr n \<Rightarrow>
                  let total = n;
                      terms = pool_or_large pool_name
                  in case unique_loop net config interval terms (py_range total) (report, w) of
                       Inl e \<Rightarrow> Inl e
                     | Inr (report1, w1) \<Rightarrow> Inr (report1\<lparr>end_time := clock w1\<rparr>, w1))"

section \<open>Result aggregator: \<^verbatim>\<open>per_term_stats\<close>\<close>

definition is_success :: "RequestResult \<Rightarrow> bool" where
  \<comment> \<open>\<^verbatim>\<open>200 <= r.status_code < 300\<close>\<close>
  "is_success r = (200 \<le> status_code r \<and> status_code r < 300)"

definition is_limited :: "RequestResult \<Rightarrow> bool" where
  \<comment> \<open>\<^verbatim>\<open>r.status_code in (429, 403)\<close>\<close>
  "is_limited r = (status_code r \<in> set [429, 403])"

record term_stats =
  success :: nat
  limited :: nat
  total :: nat

definition count_result :: "RequestResult \<Rightarrow> term_stats \<Rightarrow> term_stats" where
  \<comment> \<open>Lines 114 to 118, on the entry of the result's term.\<close>
  "count_result r entry =
     (let entry1 = entry\<lparr>total := total entry + 1\<rparr>
      in if is_success r then entry1\<lparr>success := success entry1 + 1\<rparr>
         else if is_limited r then entry1\<lparr>limited := limited entry1 + 1\<rparr>
         else entry1)"

definition entry_of :: "(string \<rightharpoonup> term_stats) \<Rightarrow> string \<Rightarrow> term_stats" where
  \<comment> \<open>Reading a \<^verbatim>\<open>defaultdict\<close>: a missing key yields the default entry.\<close>
  "entry_of by_term key =
     (case by_term key of None \<Rightarrow> \<lparr>success = 0, limited = 0, total = 0\<rparr> | Some e \<Rightarrow> e)"

definition tally :: "(string \<rightharpoonup> term_stats) \<Rightarrow> RequestResult \<Rightarrow> (string \<rightharpoonup> term_stats)" where
  "tally by_term r = by_term(term_used r \<mapsto> count_result r (entry_of by_term (term_used r)))"

definition per_term_stats :: "TestReport \<Rightarrow> (string \<rightharpoonup> term_stats)" where
  "per_term_stats report = fold (\<lambda>r by_term. tally by_term r) (results report) Map.empty"

text \<open>Vocabulary for the statistics: how many results of a key satisfy a predicate.\<close>

definition count_for :: "(RequestResult \<Rightarrow> bool) \<Rightarrow> string \<Rightarrow> RequestResult list \<Rightarrow> nat" where
  "count_for P key rs = length (filter (\<lambda>r. term_used r = key \<and> P r) rs)"

definition add_counts :: "string \<Rightarrow> RequestResult list \<Rightarrow> term_stats \<Rightarrow> term_stats" where
  "add_counts key rs e =
     \<lparr>success = success e + count_for is_success key rs,
      limited = limited e + count_for is_limited key rs,
      total = total e + count_for (\<lambda>r. True) key rs\<rparr>"

text \<open>Sample outcomes: three for key a (two successes, one limited), two for key b.\<close>

definition outcome :: "string \<Rightarrow> int \<Rightarrow> RequestResult" where
  "outcome key code =
     \<lparr>status_code = code, latency_ms = 0, timestamp = 0, headers = [], term_used = key,
      error = None, body_preview = []\<rparr>"

definition report_of :: "RequestResult list \<Rightarrow> TestReport" where
  "report_of rs = \<lparr>results = rs, start_time = 0, end_time = 0\<rparr>"

definition five_outcomes :: "RequestResult list" where
  "five_outcomes = [outcome ''a'' 200, outcome ''a'' 429, outcome ''a'' 204,
                    outcome ''b'' 200, outcome ''b'' 201]"

definition five_outcomes_shuffled :: "RequestResult list" where
  "five_outcomes_shuffled = [outcome ''b'' 201, outcome ''a'' 204, outcome ''a'' 429,
                             outcome ''b'' 200, outcome ''a'' 200]"

section \<open>Ramp controller: \<^verbatim>\<open>run_ramp_test\<close>\<close>

text \<open>
  The \<^verbatim>\<open>while\<close> loop need not terminate (a negative step size never reaches the
  ceiling, and a rate of \<open>2^53\<close> absorbs a step size of 1), so it is a partial function:
  \<open>None\<close> stands for a run that never returns. The loop state is the report, the
  current rate and the detection flag. The current rate is a double: line 267 rounds
  every sum, and a sum beyond the largest double is \<^verbatim>\<open>inf\<close>.
\<close>

fun py_le :: "pyfloat \<Rightarrow> real \<Rightarrow> bool" where
  \<comment> \<open>\<^verbatim>\<open>current_rps <= max_rps\<close>; every comparison with \<^verbatim>\<open>nan\<close> is false.\<close>
  "py_le (Finite x) m = (x \<le> m)"
| "py_le PosInf m = False"
| "py_le NegInf m = True"
| "py_le NaN m = False"

fun py_add :: "pyfloat \<Rightarrow> real \<Rightarrow> pyfloat" where
  \<comment> \<open>\<^verbatim>\<open>current_rps += step_size\<close>: the double nearest to the sum.\<close>
  "py_add (Finite x) s = round_double (x + s)"
| "py_add PosInf s = PosInf"
| "py_add NegInf s = NegInf"
| "py_add NaN s = NaN"

definition ramp_iteration ::
    "network \<Rightarrow> config \<Rightarrow> real \<Rightarrow> nat \<Rightarrow> TestReport \<times> int \<times> world \<Rightarrow> TestReport \<times> int \<times> world" where
  \<comment> \<open>One pass through the inner loop body, lines 248 to 259.\<close>
  "ramp_iteration net config interval i = (\<lambda>(report, limited_in_step, w).
     let loop_start = clock w;
         (result, w1) = send_request net config i None w;
         report1 = report\<lparr>results := results report @ [result]\<rparr>;
         limited1 = (if is_limited result then limited_in_step + 1 else limited_in_step)
     in (report1, limited1, pace interval loop_start w1))"

record ramp_state =
  ramp_report :: TestReport
  current_rps :: pyfloat
  rate_limit_detected :: bool
  ramp_world :: world

definition ramp_step ::
    "network \<Rightarrow> config \<Rightarrow> real \<Rightarrow> real \<Rightarrow> ramp_state \<Rightarrow> py_error \<times> world + ramp_state" where
  \<comment> \<open>The body of the \<^verbatim>\<open>while\<close> loop, lines 242 to 267. At a finite rate
     \<^verbatim>\<open>1.0 / current_rps\<close> raises ZeroDivisionError at 0 and \<^verbatim>\<open>int\<close> raises on an
     infinite product. At an infinite rate the interval is 0.0 and the product is
     infinite, or \<^verbatim>\<open>nan\<close> when the step duration is 0; \<^verbatim>\<open>int\<close> raises on both.\<close>
  "ramp_step net config step_duration step_size st =
     (case current_rps st of
        Finite c \<Rightarrow>
          if c = 0 then Inl (ZeroDivisionError, ramp_world st)
          else
            let interval = 1 / c
            in case py_int_of (round_double (c * step_duration)) of
                 Inl e \<Rightarrow> Inl (e, ramp_world st)
               | Inr n \<Rightarrow>
                   let step_requests = n;
                       (report1, limited_in_step, w1) =
                          fold (ramp_iteration net config interval) (py_range step_requests)
                            (ramp_report st, 0, ramp_world st);
                       limit_pct = (if step_requests \<noteq> 0
                                    then of_int limited_in_step / of_int step_requests * 100
                                    else 0);
                       (detected, w2) =
                          (if limit_pct > 20
                           then (True, print_line (RateLimitHit c limit_pct) w1)
                           else (rate_limit_detected st,
                                 print_line (RateOK c limited_in_step step_requests) w1))
                   in Inr \<lparr>ramp_report = report1,
                           current_rps = py_add (current_rps st) step_size,
                           rate_limit_detected = detected, ramp_world = w2\<rparr>
      | NaN \<Rightarrow> Inl (ValueError, ramp_world st)
      | _ \<Rightarrow> Inl (if step_duration = 0 then ValueError else OverflowError, ramp_world st))"

partial_function (option) ramp_while ::
    "network \<Rightarrow> config \<Rightarrow> real \<Rightarrow> real \<Rightarrow> real \<Rightarrow> ramp_state \<Rightarrow> (py_error \<times> world + ramp_state) option" where
  "ramp_while net config max_rps step_duration step_size st =
     (if py_le (current_rps st) max_rps \<and> \<not> rate_limit_detected st
      then (case ramp_step net config step_duration step_size st of
              Inl e \<Rightarrow> Some (Inl e)
            | Inr st1 \<Rightarrow> ramp_while net config max_rps step_duration step_size st1)
      else Some (Inr st))"

definition run_ramp_test ::
    "network \<Rightarrow> config \<Rightarrow> real \<Rightarrow> real \<Rightarrow> real \<Rightarrow> world \<Rightarrow> ((py_error + TestReport) \<times> world) option" where
  "run_ramp_test net config max_rps step_duration step_size w =
     (let report = \<lparr>results = [], start_time = clock w, end_time = 0\<rparr>;
          start = \<lparr>ramp_report = report, current_rps = Finite step_size,
                   rate_limit_detected = False, ramp_world = w\<rparr>
      in case ramp_while net config max_rps step_duration step_size start of
           None \<Rightarrow> None
         | Some (Inl (e, w1)) \<Rightarrow> Some (Inl e, w1)
         | Some (Inr st) \<Rightarrow>
             Some (Inr ((ramp_report st)\<lparr>end_time := clock (ramp_world st)\<rparr>), ramp_world st))"

text \<open>Vocabulary for the ramp: the rate of step \<open>j\<close> (the step size added \<open>j\<close> times
  to the first rate, every sum rounded) and its number of requests; the requests and
  sleeps of a paced loop of \<open>n\<close> requests that starts at call \<open>k\<close>, and of a list of
  steps; the trace without the console lines; a step whose limited fraction exceeds
  0.20; the rates at which the console reports a rate limit.\<close>

primrec rate_from :: "pyfloat \<Rightarrow> real \<Rightarrow> nat \<Rightarrow> pyfloat" where
  "rate_from r s 0 = r"
| "rate_from r s (Suc j) = py_add (rate_from r s j) s"

definition rate_at :: "real \<Rightarrow> nat \<Rightarrow> pyfloat" where
  "rate_at s j = rate_from (Finite s) s j"

definition requests_of :: "pyfloat \<Rightarrow> real \<Rightarrow> nat" where
  "requests_of r d =
     (case r of
        Finite c \<Rightarrow> (case py_int_of (round_double (c * d)) of Inr n \<Rightarrow> nat n | Inl e \<Rightarrow> 0)
      | _ \<Rightarrow> 0)"

definition requests_at :: "real \<Rightarrow> real \<Rightarrow> nat \<Rightarrow> nat" where
  "requests_at s d j = requests_of (rate_at s j) d"

definition paced_trace :: "network \<Rightarrow> config \<Rightarrow> real \<Rightarrow> nat \<Rightarrow> nat \<Rightarrow> event list" where
  "paced_trace net config interval k n =
     concat (map (\<lambda>i. Sent i (build_call config None) #
                       pause_events interval (snd (net (k + i) (build_call config None))))
                 [0..<n])"

fun ramp_trace ::
    "network \<Rightarrow> config \<Rightarrow> nat \<Rightarrow> (real \<times> RequestResult list) list \<Rightarrow> event list" where
  "ramp_trace net config k [] = []"
| "ramp_trace net config k ((c, outs) # steps) =
     paced_trace net config (1 / c) k (length outs) @
     ramp_trace net config (k + length outs) steps"

fun traffic :: "event list \<Rightarrow> event list" where
  "traffic [] = []"
| "traffic (Printed l # es) = traffic es"
| "traffic (e # es) = e # traffic es"

definition exceeds_threshold :: "RequestResult list \<Rightarrow> bool" where
  "exceeds_threshold outs =
     (outs \<noteq> [] \<and> real (length (filter is_limited outs)) / real (length outs) > 0.2)"

fun steps_ok ::
    "network \<Rightarrow> config \<Rightarrow> real \<Rightarrow> real \<Rightarrow> real \<Rightarrow> pyfloat \<Rightarrow> nat \<Rightarrow>
       (real \<times> RequestResult list) list \<Rightarrow> bool" where
  \<comment> \<open>Steps at the rates \<open>r, r + s, ...\<close>, none above \<open>m\<close>, each with the outcomes of
     its requests, none but the last over the threshold; \<open>k\<close> calls were made before.\<close>
  "steps_ok net config s m d r k [] = True"
| "steps_ok net config s m d r k ((c, outs) # steps) =
     (r = Finite c \<and> c \<le> m \<and> length outs = requests_of r d \<and>
      map status_code outs =
        map (\<lambda>i. reply_status (fst (net (k + i) (build_call config None)))) [0..<length outs] \<and>
      (steps \<noteq> [] \<longrightarrow> \<not> exceeds_threshold outs) \<and>
      steps_ok net config s m d (py_add r s) (k + length outs) steps)"

definition limiting_network :: network where
  \<comment> \<open>The first two calls are answered with 200, all later ones with 429.\<close>
  "limiting_network = (\<lambda>k c. (Response (if k < 2 then 200 else 429) [] [], 0))"

definition one_tenth :: real where
  \<comment> \<open>The double nearest to 0.1.\<close>
  "one_tenth = 3602879701896397 / 36028797018963968"

fun limit_hits :: "event list \<Rightarrow> real list" where
  "limit_hits [] = []"
| "limit_hits (Printed (RateLimitHit rate pct) # es) = rate # limit_hits es"
| "limit_hits (e # es) = limit_hits es"

definition ramp_summary :: "((py_error + TestReport) \<times> world) option \<Rightarrow>
       (int list \<times> event list \<times> real list) option" where
  \<comment> \<open>The status codes of a finished run, its requests and sleeps, and the rates at
     which it reported a limit.\<close>
  "ramp_summary run =
     (case run of
        Some (Inr report, w) \<Rightarrow>
          Some (map status_code (results report), traffic (events w), limit_hits (events w))
      | _ \<Rightarrow> None)"

section \<open>Metadata lookup: \<^verbatim>\<open>lookup_app_metadata\<close>\<close>

text \<open>
  From \<^verbatim>\<open>appstore_search_rankings.py\<close>. The catalog is a parameter: its reply to the
  batch requested at an offset with a URL. A reply is the decoded result list, an
  \<^verbatim>\<open>HTTPError\<close> or \<^verbatim>\<open>URLError\<close> (the two classes the \<^verbatim>\<open>except\<close> clause names), or
  any other exception raised while fetching or decoding (a body that is not JSON, a
  timeout while reading the body, ...), which the clause does not catch. The warning
  printed to stderr and the pause between batches are recorded in a trail.
\<close>

definition LOOKUP_BATCH_SIZE :: nat where
  "LOOKUP_BATCH_SIZE = 150"

record lookup_result =
  trackId :: "string option"
  trackName :: "string option"
  bundleId :: "string option"
  artistName :: "string option"
  formattedPrice :: "string option"
  primaryGenreName :: "string option"
  averageUserRating :: "real option"
  userRatingCount :: "int option"

record app_meta =
  name :: string
  bundle_id :: string
  developer :: string
  price :: string
  genre :: string
  rating :: "real option"
  rating_count :: "int option"

datatype lookup_reply =
    LookupData "lookup_result list"
  | LookupFailed string
  | LookupCrashed string

type_synonym catalog = "nat \<Rightarrow> string \<Rightarrow> lookup_reply"

datatype lookup_event = LookupWarning nat string | LookupPause real

fun join :: "string \<Rightarrow> string list \<Rightarrow> string" where
  "join sep [] = []"
| "join sep [x] = x"
| "join sep (x # y # ys) = x @ sep @ join sep (y # ys)"

definition lookup_url :: "string list \<Rightarrow> string \<Rightarrow> string" where
  "lookup_url batch country =
     ''https://itunes.apple.com/lookup?id='' @ join '','' batch @ ''&country='' @ country"

definition batch_offsets :: "nat \<Rightarrow> nat list" where
  \<comment> \<open>\<^verbatim>\<open>range(0, n, LOOKUP_BATCH_SIZE)\<close>\<close>
  "batch_offsets n =
     map (\<lambda>j. j * LOOKUP_BATCH_SIZE) [0..<(n + LOOKUP_BATCH_SIZE - 1) div LOOKUP_BATCH_SIZE]"

definition or_empty :: "string option \<Rightarrow> string" where
  \<comment> \<open>\<^verbatim>\<open>result.get(key, "")\<close>\<close>
  "or_empty v = (case v of None \<Rightarrow> [] | Some s \<Rightarrow> s)"

definition store_result ::
    "lookup_result \<Rightarrow> (string \<rightharpoonup> app_meta) \<Rightarrow> (string \<rightharpoonup> app_meta)" where
  \<comment> \<open>Lines 197 to 206.\<close>
  "store_result result metadata =
     metadata(or_empty (trackId result) \<mapsto>
       \<lparr>name = or_empty (trackName result), bundle_id = or_empty (bundleId result),
        developer = or_empty (artistName result), price = or_empty (formattedPrice result),
        genre = or_empty (primaryGenreName result), rating = averageUserRating result,
        rating_count = userRatingCount result\<rparr>)"

fun lookup_batches ::
    "catalog \<Rightarrow> string list \<Rightarrow> string \<Rightarrow> nat list \<Rightarrow>
       (string \<rightharpoonup> app_meta) \<times> lookup_event list \<Rightarrow>
       py_error + (string \<rightharpoonup> app_meta) \<times> lookup_event list" where
  "lookup_batches cat app_ids country [] st = Inr st"
| "lookup_batches cat app_ids country (i # rest) (metadata, trail) =
     (let batch = take LOOKUP_BATCH_SIZE (drop i app_ids);
          url = lookup_url batch country
      in case cat i url of
           LookupFailed msg \<Rightarrow>
             lookup_batches cat app_ids country rest (metadata, trail @ [LookupWarning i msg])
         | LookupCrashed msg \<Rightarrow> Inl (UncaughtException msg)
         | LookupData rs \<Rightarrow>
             let metadata1 = fold store_result rs metadata;
                 trail1 = (if i + LOOKUP_BATCH_SIZE < length app_ids
                         then trail @ [LookupPause (1 / 2)] else trail)
             in lookup_batches cat app_ids country rest (metadata1, trail1))"

definition lookup_app_metadata ::
    "catalog \<Rightarrow> string list \<Rightarrow> string \<Rightarrow>
       py_error + (string \<rightharpoonup> app_meta) \<times> lookup_event list" where
  "lookup_app_metadata cat app_ids country =
     lookup_batches cat app_ids country (batch_offsets (length app_ids)) (Map.empty, [])"

text \<open>Vocabulary: the reply to the batch at an offset, what it contributes, what it warns.\<close>

definition batch_reply :: "catalog \<Rightarrow> string list \<Rightarrow> string \<Rightarrow> nat \<Rightarrow> lookup_reply" where
  "batch_reply cat app_ids country i =
     cat i (lookup_url (take LOOKUP_BATCH_SIZE (drop i app_ids)) country)"

fun reply_results :: "lookup_reply \<Rightarrow> lookup_result list" where
  "reply_results (LookupData rs) = rs"
| "reply_results (LookupFailed msg) = []"
| "reply_results (LookupCrashed msg) = []"

fun reply_warning :: "nat \<Rightarrow> lookup_reply \<Rightarrow> (nat \<times> string) list" where
  "reply_warning i (LookupFailed msg) = [(i, msg)]"
| "reply_warning i (LookupData rs) = []"
| "reply_warning i (LookupCrashed msg) = []"

fun crashed :: "lookup_reply \<Rightarrow> bool" where
  "crashed (LookupCrashed msg) = True"
| "crashed (LookupData rs) = False"
| "crashed (LookupFailed msg) = False"

fun warnings :: "lookup_event list \<Rightarrow> (nat \<times> string) list" where
  "warnings [] = []"
| "warnings (LookupWarning i msg # es) = (i, msg) # warnings es"
| "warnings (LookupPause t # es) = warnings es"

text \<open>Sample inputs: 151 identifiers make two batches.\<close>

definition many_ids :: "string list" where
  "many_ids = replicate 151 ''284882215''"

definition sample_result :: lookup_result where
  "sample_result =
     \<lparr>trackId = Some ''284882215'', trackName = Some ''Facebook'',
      bundleId = Some ''com.facebook.Facebook'', artistName = Some ''Meta Platforms, Inc.'',
      formattedPrice = Some ''Free'', primaryGenreName = Some ''Social Networking'',
      averageUserRating = None, userRatingCount = None\<rparr>"

definition garbled_catalog :: catalog where
  \<comment> \<open>The first batch is answered; the body of the second is not JSON.\<close>
  "garbled_catalog = (\<lambda>i url. if i = 0 then LookupData [sample_result]
                               else LookupCrashed ''Expecting value: line 1 column 1 (char 0)'')"

definition flaky_catalog :: catalog where
  \<comment> \<open>The first batch fails with an HTTP error; the second is answered.\<close>
  "flaky_catalog = (\<lambda>i url. if i = 0 then LookupFailed ''HTTP Error 503: Service Unavailable''
                             else LookupData [sample_result])"

section \<open>Comparison analyzer: the printed conclusion\<close>

definition comparison_conclusion :: "int \<Rightarrow> int \<Rightarrow> conclusion option" where
  \<comment> \<open>The \<^verbatim>\<open>if\<close>/\<^verbatim>\<open>elif\<close> chain of lines 448 to 456; it has no \<^verbatim>\<open>else\<close>.\<close>
  "comparison_conclusion same_limited unique_limited =
     (if unique_limited = 0 \<and> same_limited > 0 then Some PER_TERM
      else if unique_limited > 0 \<and> same_limited > 0 then
        (if real_of_int unique_limited < real_of_int same_limited * 0.5
         then Some HYBRID else Some PER_IP)
      else if unique_limited = 0 \<and> same_limited = 0 then Some NO_LIMITS_HIT
      else None)"

text \<open>The run around the chain: lines 382 to 463.\<close>

definition same_iteration ::
    "network \<Rightarrow> config \<Rightarrow> real \<Rightarrow> string \<Rightarrow> nat \<Rightarrow> RequestResult list \<times> world \<Rightarrow>
       RequestResult list \<times> world" where
  \<comment> \<open>Phase 1, one pass through the loop body of lines 400 to 409.\<close>
  "same_iteration net config interval same_term i = (\<lambda>(same_results, w).
     let loop_start = clock w;
         (result, w1) = send_request net config i (Some same_term) w
     in (same_results @ [result], pace interval loop_start w1))"

fun rotating_phase ::
    "network \<Rightarrow> config \<Rightarrow> real \<Rightarrow> string list \<Rightarrow> nat list \<Rightarrow> RequestResult list \<times> world \<Rightarrow>
       py_error + RequestResult list \<times> world" where
  \<comment> \<open>Phase 2, the loop of lines 422 to 433.\<close>
  "rotating_phase net config interval terms [] st = Inr st"
| "rotating_phase net config interval terms (i # rest) (unique_results, w) =
     (let loop_start = clock w
      in case select_term terms i of
           Inl e \<Rightarrow> Inl e
         | Inr term \<Rightarrow>
             let (result, w1) = send_request net config i (Some term) w
             in rotating_phase net config interval terms rest
                  (unique_results @ [result], pace interval loop_start w1))"

definition count_limited :: "RequestResult list \<Rightarrow> int" where
  \<comment> \<open>\<^verbatim>\<open>sum(1 for r in rs if r.status_code in (429, 403))\<close>\<close>
  "count_limited rs = int (length (filter is_limited rs))"

definition run_same_vs_unique_test ::
    "network \<Rightarrow> config \<Rightarrow> int \<Rightarrow> real \<Rightarrow> world \<Rightarrow> py_error + TestReport \<times> world" where
  \<comment> \<open>The percentages of lines 444 and 445 divide by \<^verbatim>\<open>num_each\<close>.\<close>
  "run_same_vs_unique_test net config num_each rps w =
     (if rps = 0 then Inl ZeroDivisionError
      else
        let interval = 1 / rps;
            same_term = ''bill tracker'';
            (same_results, w1) =
               fold (same_iteration net config interval same_term) (py_range num_each) ([], w);
            same_limited = count_limited same_results;
            w2 = sleep 3 w1;
            terms = large_pool
        in case rotating_phase net config interval terms (py_range num_each) ([], w2) of
             Inl e \<Rightarrow> Inl e
           | Inr (unique_results, w3) \<Rightarrow>
               let unique_limited = count_limited unique_results
               in if num_each = 0 then Inl ZeroDivisionError
                  else
                    let w4 = (case comparison_conclusion same_limited unique_limited of
                                None \<Rightarrow> w3
                              | Some c \<Rightarrow> print_line (Conclusion c) w3);
                        report = \<lparr>results = same_results @ unique_results,
                                  start_time = (case same_results of [] \<Rightarrow> 0
                                                | r # rs \<Rightarrow> timestamp r),
                                  end_time = clock w4\<rparr>
                    in Inr (report, w4))"

text \<open>Vocabulary: the conclusions a trace prints.\<close>

fun conclusions :: "event list \<Rightarrow> conclusion list" where
  "conclusions [] = []"
| "conclusions (Printed (Conclusion c) # es) = c # conclusions es"
| "conclusions (e # es) = conclusions es"

section \<open>Concrete inputs for the examples\<close>

definition probe_config :: config where
  "probe_config =
     \<lparr>cfg_url = ''https://example.test/search'', cfg_method = ''get'',
      cfg_params = [(''term'', ''bill tracker''), (''limit'', ''15'')],
      cfg_headers = [(''Origin'', ''https://example.test'')], cfg_body = JNull\<rparr>"

definition idle_world :: world where
  "idle_world = \<lparr>clock = 0, calls = 0, events = []\<rparr>"

definition steady_network :: network where
  \<comment> \<open>Every call is answered with 200; the first takes 0.1 s, the later ones 0.7 s.\<close>
  "steady_network = (\<lambda>k c. (Response 200 [] ''ok'', if k = 0 then 1 / 10 else 7 / 10))"

section \<open>Properties\<close>

subsection \<open>Double rounding\<close>

lemma pow2_pos: "0 < pow2 e"
  by (simp add: pow2_def)

lemma pow2_mono: "a \<le> b \<Longrightarrow> pow2 a \<le> pow2 b"
proof -
  assume ab: "a \<le> b"
  have eq: "pow2 e = 2 powr (real_of_int e)" for e
    by (auto simp: pow2_def powr_realpow [symmetric] powr_minus field_simps)
  from ab show ?thesis by (simp add: eq)
qed

lemma round_half_even_bounds:
  "\<lfloor>x\<rfloor> \<le> round_half_even x" "round_half_even x \<le> \<lfloor>x\<rfloor> + 1"
  by (simp_all add: round_half_even_def Let_def)



lemma round_half_even_ge_1: "1 \<le> x \<Longrightarrow> 1 \<le> round_half_even x"
proof -
  assume "1 \<le> x"
  then have "1 \<le> \<lfloor>x\<rfloor>" by simp
  with round_half_even_bounds(1) [of x] show ?thesis by linarith
qed


lemma float_exponent_le:
  assumes "x \<noteq> 0"
  shows "pow2 (float_exponent x) \<le> \<bar>x\<bar>"
proof (cases "1 \<le> \<bar>x\<bar>")
  case True
  then have n: "0 < \<lfloor>\<bar>x\<bar>\<rfloor>" by simp
  from bitlen_bounds [OF n] have "2 ^ nat (bitlen \<lfloor>\<bar>x\<bar>\<rfloor> - 1) \<le> \<lfloor>\<bar>x\<bar>\<rfloor>" by simp
  then have "(2::real) ^ nat (bitlen \<lfloor>\<bar>x\<bar>\<rfloor> - 1) \<le> of_int \<lfloor>\<bar>x\<bar>\<rfloor>"
    by (metis of_int_le_iff of_int_numeral of_int_power)
  also have "\<dots> \<le> \<bar>x\<bar>" by simp
  finally have le: "(2::real) ^ nat (bitlen \<lfloor>\<bar>x\<bar>\<rfloor> - 1) \<le> \<bar>x\<bar>" .
  from n have "1 \<le> bitlen \<lfloor>\<bar>x\<bar>\<rfloor>" by (auto simp: bitlen_alt_def)
  with True le show ?thesis by (simp add: float_exponent_def pow2_def Let_def)
next
  case False
  with assms have a: "0 < \<bar>x\<bar>" "\<bar>x\<bar> < 1" by simp_all
  let ?k = "\<lceil>1 / \<bar>x\<bar>\<rceil> - 1"
  from a have "1 < 1 / \<bar>x\<bar>" by simp
  then have "1 < \<lceil>1 / \<bar>x\<bar>\<rceil>" by (simp add: less_ceiling_iff)
  then have k: "0 < ?k" by simp
  from bitlen_bounds [OF k] have "?k < 2 ^ nat (bitlen ?k)" by simp
  then have "\<lceil>1 / \<bar>x\<bar>\<rceil> \<le> 2 ^ nat (bitlen ?k)" by simp
  then have "of_int \<lceil>1 / \<bar>x\<bar>\<rceil> \<le> (2::real) ^ nat (bitlen ?k)"
    by (metis of_int_le_iff of_int_numeral of_int_power)
  moreover have "1 / \<bar>x\<bar> \<le> of_int \<lceil>1 / \<bar>x\<bar>\<rceil>" by simp
  ultimately have "1 / \<bar>x\<bar> \<le> (2::real) ^ nat (bitlen ?k)" by linarith
  with a have le: "1 / (2::real) ^ nat (bitlen ?k) \<le> \<bar>x\<bar>"
    by (simp add: field_simps)
  from k have b: "1 \<le> bitlen ?k" by (auto simp: bitlen_alt_def)
  with False le show ?thesis
    by (simp add: float_exponent_def pow2_def Let_def)
qed

lemma min_double_pos: "0 < min_double"
  by (simp add: min_double_def pow2_pos)

lemma quantum_ge_min_double: "min_double \<le> pow2 (max e (- 1022) - 52)"
  unfolding min_double_def by (rule pow2_mono) simp

lemma round_double_cases:
  assumes "x \<noteq> 0"
  obtains q n where "q = pow2 (max (float_exponent x) (- 1022) - 52)"
    and "n = round_half_even (x / q)"
    and "round_double x =
           (if pow2 1024 \<le> of_int n * q then PosInf
            else if of_int n * q \<le> - pow2 1024 then NegInf
            else Finite (of_int n * q))"
  using assms by (simp add: round_double_def Let_def)

lemma round_double_ge_min:
  assumes "min_double \<le> x"
  shows "round_double x = PosInf \<or> (\<exists>y. round_double x = Finite y \<and> min_double \<le> y)"
proof -
  from assms min_double_pos have pos: "0 < x" by linarith
  then have nz: "x \<noteq> 0" by simp
  from nz obtain q n where q: "q = pow2 (max (float_exponent x) (- 1022) - 52)"
    and n: "n = round_half_even (x / q)"
    and r: "round_double x =
           (if pow2 1024 \<le> of_int n * q then PosInf
            else if of_int n * q \<le> - pow2 1024 then NegInf
            else Finite (of_int n * q))"
    by (rule round_double_cases)
  have qpos: "0 < q" unfolding q by (rule pow2_pos)
  have qmin: "min_double \<le> q" unfolding q by (rule quantum_ge_min_double)
  have "q \<le> x"
  proof (cases "float_exponent x \<le> - 1022")
    case True
    then have "q = min_double" by (simp add: q min_double_def max_def)
    with assms show ?thesis by simp
  next
    case False
    then have "q = pow2 (float_exponent x - 52)" by (simp add: q max_def)
    also have "\<dots> \<le> pow2 (float_exponent x)" by (rule pow2_mono) simp
    also from float_exponent_le [OF nz] pos have "\<dots> \<le> x" by simp
    finally show ?thesis .
  qed
  with qpos have "1 \<le> x / q" by simp
  then have "1 \<le> n" unfolding n by (rule round_half_even_ge_1)
  then have "1 \<le> real_of_int n" by simp
  with qpos have "q \<le> of_int n * q" by simp
  with qmin have big: "min_double \<le> of_int n * q" by linarith
  with min_double_pos pow2_pos [of 1024] have "\<not> of_int n * q \<le> - pow2 1024"
    by linarith
  with r big show ?thesis by auto
qed

lemma is_double_ge_min:
  assumes "is_double s" and "0 < s"
  shows "min_double \<le> s"
proof -
  from assms(2) have nz: "s \<noteq> 0" by simp
  from nz obtain q n where q: "q = pow2 (max (float_exponent s) (- 1022) - 52)"
    and n: "n = round_half_even (s / q)"
    and r: "round_double s =
           (if pow2 1024 \<le> of_int n * q then PosInf
            else if of_int n * q \<le> - pow2 1024 then NegInf
            else Finite (of_int n * q))"
    by (rule round_double_cases)
  have qpos: "0 < q" unfolding q by (rule pow2_pos)
  have qmin: "min_double \<le> q" unfolding q by (rule quantum_ge_min_double)
  from assms(1) r have s: "s = of_int n * q"
    by (simp add: is_double_def split: if_splits)
  with assms(2) qpos have "0 < real_of_int n" by (simp add: zero_less_mult_iff)
  then have "1 \<le> real_of_int n" by simp
  with qpos have "q \<le> of_int n * q" by simp
  with qmin s show ?thesis by linarith
qed

lemma round_double_finiteI:
  assumes "x \<noteq> 0" and "float_exponent x = e" and "q = pow2 (max e (- 1022) - 52)"
    and "round_half_even (x / q) = n" and "y = of_int n * q"
    and "y < pow2 1024" and "- pow2 1024 < y"
  shows "round_double x = Finite y"
  using assms by (simp add: round_double_def Let_def)


lemma nat_py_int: "nat (py_int p) = nat \<lfloor>p\<rfloor>"
proof (cases "0 \<le> p")
  case True
  then show ?thesis by (simp add: py_int_def)
next
  case False
  then have "\<lceil>p\<rceil> \<le> 0" and "\<lfloor>p\<rfloor> \<le> 0" by (simp_all add: ceiling_le_zero floor_le_zero)
  with False show ?thesis by (simp add: py_int_def)
qed






subsection \<open>Comparison classification\<close>

text \<open>
  Claim C1. The conclusion is a function of the two counts alone: PER-TERM (PerKeyLimit)
  when no rotating-key request was limited and some fixed-key request was; HYBRID
  (HybridLimit) when both counts are positive and the rotating-key count is below half
  the fixed-key count; PER-IP (PerClientLimit) when both are positive and it is at least
  half; "no rate limits hit" (Inconclusive) when both counts are zero.
\<close>

theorem comparison_conclusion_rules:
  "(u = 0 \<and> s > 0 \<longrightarrow> comparison_conclusion s u = Some PER_TERM) \<and>
   (u > 0 \<and> s > 0 \<and> real_of_int u < real_of_int s / 2 \<longrightarrow>
      comparison_conclusion s u = Some HYBRID) \<and>
   (u > 0 \<and> s > 0 \<and> real_of_int u \<ge> real_of_int s / 2 \<longrightarrow>
      comparison_conclusion s u = Some PER_IP) \<and>
   (u = 0 \<and> s = 0 \<longrightarrow> comparison_conclusion s u = Some NO_LIMITS_HIT)"
  by (simp add: comparison_conclusion_def)

theorem comparison_conclusion_rules_witness:
  "comparison_conclusion 8 0 = Some PER_TERM \<and>
   comparison_conclusion 9 2 = Some HYBRID \<and>
   comparison_conclusion 9 7 = Some PER_IP \<and>
   comparison_conclusion 0 0 = Some NO_LIMITS_HIT"
  using comparison_conclusion_rules [of 0 8] comparison_conclusion_rules [of 2 9]
    comparison_conclusion_rules [of 7 9] comparison_conclusion_rules [of 0 0]
  by simp

text \<open>
  Claim C10. When only the rotating-key phase was limited (no fixed-key request limited,
  some rotating-key request limited) no branch of the chain applies and nothing is
  printed.
\<close>

theorem comparison_conclusion_undefined:
  "s = 0 \<Longrightarrow> u > 0 \<Longrightarrow> comparison_conclusion s u = None"
  by (simp add: comparison_conclusion_def)

theorem comparison_conclusion_undefined_witness:
  "(0::int) = 0 \<and> (3::int) > 0 \<and> comparison_conclusion 0 3 = None"
  using comparison_conclusion_undefined [of 0 3] by simp

subsection \<open>Request executor\<close>

text \<open>
  Claim C4. Every result of \<^verbatim>\<open>send_request\<close> carries an error exactly when its status
  code is 0, and then its latency is 0; an exception raised during the call is turned
  into such a result, so the function returns a result on every call. The HTTP client
  only delivers status codes from 100 upwards (\<^verbatim>\<open>http.client\<close> rejects any other
  status line), which is the hypothesis on the network.
\<close>

theorem send_request_error_iff_status_zero:
  assumes "\<And>code hs body secs.
     net (calls w) (build_call config t) = (Response code hs body, secs) \<Longrightarrow> 100 \<le> code"
  shows "(error (fst (send_request net config n t w)) \<noteq> None
            \<longleftrightarrow> status_code (fst (send_request net config n t w)) = 0) \<and>
         (error (fst (send_request net config n t w)) \<noteq> None
            \<longrightarrow> latency_ms (fst (send_request net config n t w)) = 0)"
proof (cases "net (calls w) (build_call config t)")
  case (Pair reply secs)
  show ?thesis
  proof (cases reply)
    case (Raised msg)
    with Pair show ?thesis by (simp add: send_request_def failed_result_def Let_def)
  next
    case (Response code hs bd)
    with Pair assms have "100 \<le> code" by simp
    with Pair Response show ?thesis by (simp add: send_request_def Let_def)
  qed
qed

theorem send_request_error_iff_status_zero_witness:
  "(let r = fst (send_request (\<lambda>k c. (Raised ''timed out'', 30)) probe_config 0 None idle_world)
    in error r = Some ''timed out'' \<and> status_code r = 0 \<and> latency_ms r = 0) \<and>
   (let r = fst (send_request (\<lambda>k c. (Response 429 [] ''slow down'', 0)) probe_config 0 None
                   idle_world)
    in error r = None \<and> status_code r = 429)"
  using send_request_error_iff_status_zero
          [of "\<lambda>k c. (Raised ''timed out'', 30)" idle_world probe_config None 0]
        send_request_error_iff_status_zero
          [of "\<lambda>k c. (Response 429 [] ''slow down'', 0)" idle_world probe_config None 0]
  by (simp add: send_request_def failed_result_def Let_def)

text \<open>
  Claim C5, as stated: the body preview is empty for every status code from 200 to 299.
  It fails at status 201: the source tests \<^verbatim>\<open>resp.status_code != 200\<close>.
\<close>

theorem body_preview_2xx_counterexample:
  "status_code (fst (send_request (\<lambda>k c. (Response 201 [] ''created'', 0)) probe_config 0 None
      idle_world)) = 201 \<and>
   body_preview (fst (send_request (\<lambda>k c. (Response 201 [] ''created'', 0)) probe_config 0 None
      idle_world)) = ''created''"
  by (simp add: send_request_def Let_def)

text \<open>
  Claim C5, amended. For a received response the body preview is empty when the status
  code is 200; for every other status code (the other 2xx codes included) it is the first
  200 characters of the body, which is empty only when the body is. It never exceeds 200
  characters.
\<close>

theorem send_request_body_preview:
  assumes "net (calls w) (build_call config t) = (Response code hs body, secs)"
  shows "body_preview (fst (send_request net config n t w)) =
           (if code = 200 then [] else take 200 body) \<and>
         length (body_preview (fst (send_request net config n t w))) \<le> 200"
  using assms by (simp add: send_request_def Let_def)

theorem send_request_body_preview_witness:
  "body_preview (fst (send_request (\<lambda>k c. (Response 200 [] ''ok'', 0)) probe_config 0 None
      idle_world)) = [] \<and>
   body_preview (fst (send_request (\<lambda>k c. (Response 503 [] ''busy'', 0)) probe_config 0 None
      idle_world)) = ''busy''"
  using send_request_body_preview
          [of "\<lambda>k c. (Response 200 [] ''ok'', 0)" idle_world probe_config None 200 "[]" "''ok''" 0 0]
        send_request_body_preview
          [of "\<lambda>k c. (Response 503 [] ''busy'', 0)" idle_world probe_config None 503 "[]" "''busy''" 0 0]
  by simp

subsection \<open>Pacer\<close>

lemma send_request_world:
  "snd (send_request net config i t w) =
     w\<lparr>clock := clock w + snd (net (calls w) (build_call config t)),
       calls := Suc (calls w),
       events := events w @ [Sent i (build_call config t)]\<rparr>"
  by (simp add: send_request_def Let_def split: prod.splits http_reply.splits)

lemma send_request_status:
  "status_code (fst (send_request net config i t w)) =
     reply_status (fst (net (calls w) (build_call config t)))"
  by (simp add: send_request_def Let_def failed_result_def split: prod.splits http_reply.splits)








subsection \<open>Invalid parameters\<close>




subsection \<open>Key rotation\<close>

lemma result_term_Some: "result_term (Some t) (build_call config (Some t)) = t"
  by (simp add: result_term_def build_call_def Let_def update_conv')

lemma send_request_term_used:
  "term_used (fst (send_request net config i (Some t) w)) = t"
  by (simp add: send_request_def Let_def failed_result_def result_term_Some
        split: prod.splits http_reply.splits)

lemma unique_loop_terms:
  assumes "terms \<noteq> []"
  shows "\<exists>rep' w'. unique_loop net config interval terms idxs (rep, w) = Inr (rep', w') \<and>
     map term_used (results rep') =
       map term_used (results rep) @ map (\<lambda>i. terms ! (i mod length terms)) idxs"
proof (induction idxs arbitrary: rep w)
  case Nil
  show ?case by simp
next
  case (Cons i rest)
  let ?t = "terms ! (i mod length terms)"
  obtain r w1 where sent: "send_request net config i (Some ?t) w = (r, w1)"
    by (cases "send_request net config i (Some ?t) w")
  then have used: "term_used r = ?t"
    using send_request_term_used [of net config i ?t w] by simp
  from assms have sel: "select_term terms i = Inr ?t"
    by (simp add: select_term_def)
  have step: "unique_loop net config interval terms (i # rest) (rep, w) =
      unique_loop net config interval terms rest
        (rep\<lparr>results := results rep @ [r]\<rparr>, pace interval (clock w) w1)"
    by (simp add: sel sent)
  from Cons [of "rep\<lparr>results := results rep @ [r]\<rparr>" "pace interval (clock w) w1"]
  obtain rep' w' where
    "unique_loop net config interval terms rest
        (rep\<lparr>results := results rep @ [r]\<rparr>, pace interval (clock w) w1) = Inr (rep', w')"
    "map term_used (results rep') =
       map term_used (results (rep\<lparr>results := results rep @ [r]\<rparr>)) @
       map (\<lambda>i. terms ! (i mod length terms)) rest"
    by blast
  with step used show ?case by simp
qed

text \<open>
  Claim C8. For every non-empty pool the key of request \<open>i\<close> is
  \<open>terms[i mod len(terms)]\<close>: the selection depends on the index alone, it has period
  \<open>len(terms)\<close>, and the rotating run uses exactly these keys, in index order.
\<close>

theorem select_term_round_robin:
  assumes "terms \<noteq> []"
  shows "select_term terms i = Inr (terms ! (i mod length terms)) \<and>
         select_term terms (i + length terms) = select_term terms i \<and>
         (\<exists>rep' w'. unique_loop net config interval terms [0..<n] (rep, w) = Inr (rep', w') \<and>
            map term_used (results rep') =
              map term_used (results rep) @ map (\<lambda>i. terms ! (i mod length terms)) [0..<n])"
proof -
  from assms have "select_term terms i = Inr (terms ! (i mod length terms))"
    and "select_term terms (i + length terms) = select_term terms i"
    by (simp_all add: select_term_def)
  with unique_loop_terms [OF assms, of net config interval "[0..<n]" rep w]
  show ?thesis by blast
qed

lemma round_robin_abc: "map (\<lambda>i. [''a'', ''b'', ''c''] ! (i mod 3)) [0..<5] = [''a'', ''b'', ''c'', ''a'', ''b'']"
  by code_simp

lemma select_term_abc_4: "select_term [''a'', ''b'', ''c''] 4 = Inr ''b''"
  by code_simp

theorem select_term_round_robin_witness:
  "select_term [''a'', ''b'', ''c''] 4 = Inr ''b'' \<and>
   select_term [''a'', ''b'', ''c''] 7 = select_term [''a'', ''b'', ''c''] 4 \<and>
   (\<exists>rep' w'. unique_loop steady_network probe_config (1 / 2) [''a'', ''b'', ''c''] [0..<5]
        (\<lparr>results = [], start_time = 0, end_time = 0\<rparr>, idle_world) = Inr (rep', w') \<and>
      map term_used (results rep') = [''a'', ''b'', ''c'', ''a'', ''b''])"
proof -
  have ne: "[''a'', ''b'', ''c''] \<noteq> []" by simp
  have len: "length [''a'', ''b'', ''c''] = 3" by simp
  have seven: "4 + 3 = (7::nat)" by simp
  note inst = select_term_round_robin [OF ne, of 4 steady_network probe_config "1 / 2" 5
          "\<lparr>results = [], start_time = 0, end_time = 0\<rparr>" idle_world]
  from inst show ?thesis
    unfolding len round_robin_abc seven select_term_abc_4
    by (simp only: TestReport.select_convs list.map append_Nil simp_thms)
qed

subsection \<open>Result aggregator\<close>

lemma limited_not_success: "is_limited r \<Longrightarrow> \<not> is_success r"
  by (auto simp: is_limited_def is_success_def)

lemma count_result_fields:
  "success (count_result r e) = success e + (if is_success r then 1 else 0)"
  "limited (count_result r e) = limited e + (if is_limited r then 1 else 0)"
  "total (count_result r e) = total e + 1"
  using limited_not_success [of r] by (simp_all add: count_result_def Let_def)

lemma add_counts_Cons_same:
  "term_used r = key \<Longrightarrow> add_counts key (r # rs) e = add_counts key rs (count_result r e)"
  by (simp add: add_counts_def count_for_def count_result_fields)

lemma add_counts_Cons_other:
  "term_used r \<noteq> key \<Longrightarrow> add_counts key (r # rs) e = add_counts key rs e"
  by (simp add: add_counts_def count_for_def)

lemma count_for_absent: "key \<notin> term_used ` set rs \<Longrightarrow> count_for P key rs = 0"
  by (induction rs) (auto simp: count_for_def)

lemma add_counts_absent: "key \<notin> term_used ` set rs \<Longrightarrow> add_counts key rs e = e"
  by (simp add: add_counts_def count_for_absent)

lemma tally_same: "term_used r = key \<Longrightarrow> tally m r key = Some (count_result r (entry_of m key))"
  by (simp add: tally_def)

lemma tally_other: "term_used r \<noteq> key \<Longrightarrow> tally m r key = m key"
  by (simp add: tally_def)

lemma tally_fold:
  "fold (\<lambda>r by_term. tally by_term r) rs m key =
     (if key \<in> term_used ` set rs then Some (add_counts key rs (entry_of m key)) else m key)"
proof (induction rs arbitrary: m)
  case Nil
  show ?case by simp
next
  case (Cons r rs)
  have step: "fold (\<lambda>r by_term. tally by_term r) (r # rs) m key =
      (if key \<in> term_used ` set rs then Some (add_counts key rs (entry_of (tally m r) key))
       else tally m r key)"
    using Cons [of "tally m r"] by simp
  show ?case
  proof (cases "term_used r = key")
    case True
    then have e: "entry_of (tally m r) key = count_result r (entry_of m key)"
      by (simp add: entry_of_def tally_same)
    from True have in_keys: "key \<in> term_used ` set (r # rs)" by auto
    from True have cons: "add_counts key (r # rs) (entry_of m key) =
        add_counts key rs (count_result r (entry_of m key))"
      by (rule add_counts_Cons_same)
    from True have here: "tally m r key = Some (count_result r (entry_of m key))"
      by (rule tally_same)
    show ?thesis
    proof (cases "key \<in> term_used ` set rs")
      case True
      then show ?thesis unfolding step e cons using in_keys by simp
    next
      case False
      then have "add_counts key rs (count_result r (entry_of m key)) =
          count_result r (entry_of m key)" by (rule add_counts_absent)
      with False show ?thesis unfolding step e cons here using in_keys by simp
    qed
  next
    case False
    then have e: "entry_of (tally m r) key = entry_of m key"
      by (simp add: entry_of_def tally_other)
    from False have keys: "key \<in> term_used ` set (r # rs) \<longleftrightarrow> key \<in> term_used ` set rs"
      by auto
    from False have cons: "add_counts key (r # rs) (entry_of m key) =
        add_counts key rs (entry_of m key)"
      by (rule add_counts_Cons_other)
    from False have here: "tally m r key = m key" by (rule tally_other)
    show ?thesis unfolding step e keys cons here ..
  qed
qed

lemma count_for_mset: "mset rs' = mset rs \<Longrightarrow> count_for P key rs' = count_for P key rs"
proof -
  assume eq: "mset rs' = mset rs"
  let ?Q = "\<lambda>r. term_used r = key \<and> P r"
  have "size (mset (filter ?Q rs')) = size (mset (filter ?Q rs))"
    by (simp only: mset_filter eq)
  then show ?thesis by (simp only: size_mset count_for_def)
qed

lemma per_term_stats_key:
  "per_term_stats rep key =
     (if key \<in> term_used ` set (results rep)
      then Some \<lparr>success = count_for is_success key (results rep),
                limited = count_for is_limited key (results rep),
                total = count_for (\<lambda>r. True) key (results rep)\<rparr>
      else None)"
  by (simp add: per_term_stats_def tally_fold add_counts_def entry_of_def)

text \<open>
  Claim C7. The per-key breakdown of a report does not change when the stored outcomes
  are permuted, and for each key that occurs it reports the number of outcomes with that
  key as total, those with a 2xx status as success and those with status 429 or 403 as
  limited; keys that do not occur have no entry. The witness is the report with three
  outcomes for key a and two for key b.
\<close>

theorem per_term_stats_grouping:
  assumes "mset (results rep') = mset (results rep)"
  shows "per_term_stats rep' = per_term_stats rep \<and>
         (\<forall>key. per_term_stats rep key =
            (if key \<in> term_used ` set (results rep)
             then Some \<lparr>success = count_for is_success key (results rep),
                       limited = count_for is_limited key (results rep),
                       total = count_for (\<lambda>r. True) key (results rep)\<rparr>
             else None))"
proof -
  from assms have "set (results rep') = set (results rep)" by (rule mset_eq_setD)
  moreover note count_for_mset [OF assms, of is_success] count_for_mset [OF assms, of is_limited]
    count_for_mset [OF assms, of "\<lambda>r. True"]
  ultimately have "per_term_stats rep' key = per_term_stats rep key" for key
    by (simp only: per_term_stats_key)
  then have "per_term_stats rep' = per_term_stats rep" by (rule ext)
  with per_term_stats_key show ?thesis by simp
qed

lemma five_outcomes_keys: "term_used ` set five_outcomes = {''a'', ''b''}"
  by (simp add: five_outcomes_def outcome_def)

lemma five_outcomes_counts:
  "count_for is_success ''a'' five_outcomes = 2"
  "count_for is_limited ''a'' five_outcomes = 1"
  "count_for (\<lambda>r. True) ''a'' five_outcomes = 3"
  "count_for is_success ''b'' five_outcomes = 2"
  "count_for is_limited ''b'' five_outcomes = 0"
  "count_for (\<lambda>r. True) ''b'' five_outcomes = 2"
  by code_simp+

lemma five_outcomes_shuffled_mset: "mset five_outcomes_shuffled = mset five_outcomes"
  by (simp add: five_outcomes_def five_outcomes_shuffled_def)

theorem per_term_stats_grouping_witness:
  "per_term_stats (report_of five_outcomes_shuffled) = per_term_stats (report_of five_outcomes) \<and>
   per_term_stats (report_of five_outcomes) ''a'' = Some \<lparr>success = 2, limited = 1, total = 3\<rparr> \<and>
   per_term_stats (report_of five_outcomes) ''b'' = Some \<lparr>success = 2, limited = 0, total = 2\<rparr> \<and>
   dom (per_term_stats (report_of five_outcomes)) = {''a'', ''b''}"
proof -
  have perm: "mset (results (report_of five_outcomes_shuffled)) =
      mset (results (report_of five_outcomes))"
    by (simp add: report_of_def five_outcomes_shuffled_mset)
  have res: "results (report_of five_outcomes) = five_outcomes"
    by (simp add: report_of_def)
  note inst = per_term_stats_grouping [OF perm, unfolded res five_outcomes_keys]
  from inst have a: "per_term_stats (report_of five_outcomes) ''a'' =
      Some \<lparr>success = 2, limited = 1, total = 3\<rparr>"
    by (simp add: five_outcomes_counts)
  from inst have b: "per_term_stats (report_of five_outcomes) ''b'' =
      Some \<lparr>success = 2, limited = 0, total = 2\<rparr>"
    by (simp add: five_outcomes_counts)
  from inst have "dom (per_term_stats (report_of five_outcomes)) = {''a'', ''b''}"
    by (auto simp: dom_def split: if_splits)
  with inst a b show ?thesis by blast
qed

subsection \<open>Metadata lookup\<close>

lemma warnings_append: "warnings (xs @ ys) = warnings xs @ warnings ys"
  by (induction xs rule: warnings.induct) simp_all

lemma lookup_batches_tolerant:
  assumes "\<forall>i \<in> set offsets. \<not> crashed (batch_reply cat app_ids country i)"
  shows "\<exists>metadata' trail'.
     lookup_batches cat app_ids country offsets (metadata, trail) = Inr (metadata', trail') \<and>
     metadata' = fold store_result
        (concat (map (\<lambda>i. reply_results (batch_reply cat app_ids country i)) offsets)) metadata \<and>
     warnings trail' = warnings trail @
        concat (map (\<lambda>i. reply_warning i (batch_reply cat app_ids country i)) offsets)"
  using assms
proof (induction offsets arbitrary: metadata trail)
  case Nil
  show ?case by simp
next
  case (Cons i rest)
  from Cons.prems have ok: "\<not> crashed (batch_reply cat app_ids country i)"
    and rest_ok: "\<forall>j \<in> set rest. \<not> crashed (batch_reply cat app_ids country j)"
    by simp_all
  show ?case
  proof (cases "batch_reply cat app_ids country i")
    case (LookupData rs)
    then have step: "lookup_batches cat app_ids country (i # rest) (metadata, trail) =
        lookup_batches cat app_ids country rest
          (fold store_result rs metadata,
           if i + LOOKUP_BATCH_SIZE < length app_ids then trail @ [LookupPause (1 / 2)] else trail)"
      by (simp add: batch_reply_def Let_def)
    from Cons.IH [OF rest_ok, of "fold store_result rs metadata"
        "if i + LOOKUP_BATCH_SIZE < length app_ids then trail @ [LookupPause (1 / 2)] else trail"]
    show ?thesis unfolding step using LookupData by (auto simp: warnings_append)
  next
    case (LookupFailed msg)
    then have step: "lookup_batches cat app_ids country (i # rest) (metadata, trail) =
        lookup_batches cat app_ids country rest (metadata, trail @ [LookupWarning i msg])"
      by (simp add: batch_reply_def Let_def)
    from Cons.IH [OF rest_ok, of metadata "trail @ [LookupWarning i msg]"]
    show ?thesis unfolding step using LookupFailed by (auto simp: warnings_append)
  next
    case (LookupCrashed msg)
    with ok show ?thesis by simp
  qed
qed

lemma many_ids_offsets: "batch_offsets (length many_ids) = [0, 150]"
  by code_simp

lemma many_ids_length: "length many_ids = 151"
  by (simp add: many_ids_def)

text \<open>
  What the \<^verbatim>\<open>try\<close> / \<^verbatim>\<open>except\<close> / \<^verbatim>\<open>continue\<close> of lines 189 to 194 achieves: when every
  batch either is answered with decodable data or fails with an \<^verbatim>\<open>HTTPError\<close> or
  \<^verbatim>\<open>URLError\<close>, the lookup returns; each failed batch is reported with its offset and
  skipped, and the metadata returned is that of the answered batches, stored in batch
  order.
\<close>

lemma lookup_app_metadata_skips_failed_batches:
  assumes "\<forall>i \<in> set (batch_offsets (length app_ids)).
             \<not> crashed (batch_reply cat app_ids country i)"
  shows "\<exists>metadata trail.
     lookup_app_metadata cat app_ids country = Inr (metadata, trail) \<and>
     metadata = fold store_result
        (concat (map (\<lambda>i. reply_results (batch_reply cat app_ids country i))
                     (batch_offsets (length app_ids)))) Map.empty \<and>
     warnings trail =
        concat (map (\<lambda>i. reply_warning i (batch_reply cat app_ids country i))
                    (batch_offsets (length app_ids)))"
  using lookup_batches_tolerant [OF assms, of Map.empty "[]"]
  by (simp add: lookup_app_metadata_def)

lemma lookup_app_metadata_skips_flaky_catalog:
  "\<exists>metadata trail.
     lookup_app_metadata flaky_catalog many_ids ''us'' = Inr (metadata, trail) \<and>
     metadata ''284882215'' = Some
       \<lparr>name = ''Facebook'', bundle_id = ''com.facebook.Facebook'',
        developer = ''Meta Platforms, Inc.'', price = ''Free'', genre = ''Social Networking'',
        rating = None, rating_count = None\<rparr> \<and>
     warnings trail = [(0, ''HTTP Error 503: Service Unavailable'')]"
proof -
  have r0: "batch_reply flaky_catalog many_ids ''us'' 0 =
      LookupFailed ''HTTP Error 503: Service Unavailable''"
    and r1: "batch_reply flaky_catalog many_ids ''us'' 150 = LookupData [sample_result]"
    by (simp_all add: batch_reply_def flaky_catalog_def)
  have ok: "\<forall>i \<in> set (batch_offsets (length many_ids)).
      \<not> crashed (batch_reply flaky_catalog many_ids ''us'' i)"
    unfolding many_ids_offsets by (simp add: r0 r1)
  have stored: "store_result sample_result Map.empty ''284882215'' = Some
       \<lparr>name = ''Facebook'', bundle_id = ''com.facebook.Facebook'',
        developer = ''Meta Platforms, Inc.'', price = ''Free'', genre = ''Social Networking'',
        rating = None, rating_count = None\<rparr>"
    by (simp add: store_result_def sample_result_def or_empty_def)
  from lookup_app_metadata_skips_failed_batches [OF ok]
  have "\<exists>trail. lookup_app_metadata flaky_catalog many_ids ''us'' =
          Inr (store_result sample_result Map.empty, trail) \<and>
        warnings trail = [(0, ''HTTP Error 503: Service Unavailable'')]"
    unfolding many_ids_offsets by (simp add: r0 r1)
  with stored show ?thesis by blast
qed

text \<open>
  Claim C9. The failure of a single batch request does not abort the lookup: the failed
  batch is reported and skipped, and the metadata of the other batches is returned. The
  code misses a case: with 151 identifiers, the first batch answered and the second
  answered with a body that is not JSON, the decoding error raised inside the
  \<^verbatim>\<open>try\<close> block is not among the exceptions caught, so the lookup ends with that
  exception, nothing is reported or skipped, and the metadata of the first batch is lost.
\<close>

theorem lookup_aborts_on_malformed_batch:
  "batch_reply garbled_catalog many_ids ''us'' 0 = LookupData [sample_result] \<and>
   lookup_app_metadata garbled_catalog many_ids ''us'' =
     Inl (UncaughtException ''Expecting value: line 1 column 1 (char 0)'')"
  by (simp add: lookup_app_metadata_def many_ids_offsets batch_reply_def garbled_catalog_def
        Let_def)

subsection \<open>Ramp controller\<close>

lemma limit_hits_append: "limit_hits (xs @ ys) = limit_hits xs @ limit_hits ys"
  by (induction xs rule: limit_hits.induct) simp_all

lemma traffic_append: "traffic (xs @ ys) = traffic xs @ traffic ys"
  by (induction xs rule: traffic.induct) simp_all

lemma pause_events_traffic:
  "traffic (pause_events interval elapsed) = pause_events interval elapsed"
  "limit_hits (pause_events interval elapsed) = []"
  by (simp_all add: pause_events_def)

lemma paced_trace_0: "paced_trace net config interval k 0 = []"
  by (simp add: paced_trace_def)

lemma paced_trace_Suc:
  "paced_trace net config interval k (Suc n) =
     paced_trace net config interval k n @
     Sent n (build_call config None) #
     pause_events interval (snd (net (k + n) (build_call config None)))"
  by (simp add: paced_trace_def)

lemma paced_trace_traffic:
  "traffic (paced_trace net config interval k n) = paced_trace net config interval k n"
  "limit_hits (paced_trace net config interval k n) = []"
  by (induction n)
     (simp_all add: paced_trace_0 paced_trace_Suc traffic_append limit_hits_append
        pause_events_traffic)

lemma ramp_iteration_step:
  assumes "ramp_iteration net config interval i (rep, cnt, w) = (rep', cnt', w')"
  shows "\<exists>r. results rep' = results rep @ [r] \<and>
              status_code r = reply_status (fst (net (calls w) (build_call config None))) \<and>
              cnt' = cnt + (if is_limited r then 1 else 0) \<and>
              calls w' = Suc (calls w) \<and>
              events w' = events w @ Sent i (build_call config None) #
                 pause_events interval (snd (net (calls w) (build_call config None)))"
proof -
  obtain r w1 where sent: "send_request net config i None w = (r, w1)"
    by (cases "send_request net config i None w")
  with send_request_world [of net config i None w]
  have w1: "w1 = w\<lparr>clock := clock w + snd (net (calls w) (build_call config None)),
       calls := Suc (calls w),
       events := events w @ [Sent i (build_call config None)]\<rparr>"
    by simp
  from sent send_request_status [of net config i None w]
  have st: "status_code r = reply_status (fst (net (calls w) (build_call config None)))"
    by simp
  from assms sent have "rep' = rep\<lparr>results := results rep @ [r]\<rparr>"
    and "cnt' = (if is_limited r then cnt + 1 else cnt)"
    and "w' = pace interval (clock w) w1"
    by (simp_all add: ramp_iteration_def Let_def)
  with w1 st show ?thesis
    by (simp add: pace_def sleep_def pause_events_def Let_def)
qed

lemma ramp_fold:
  "fold (ramp_iteration net config interval) [0..<n] (rep, cnt, w) = (rep', cnt', w') \<Longrightarrow>
     \<exists>outs. results rep' = results rep @ outs \<and> length outs = n \<and>
            map status_code outs =
              map (\<lambda>i. reply_status (fst (net (calls w + i) (build_call config None)))) [0..<n] \<and>
            cnt' = cnt + int (length (filter is_limited outs)) \<and>
            calls w' = calls w + n \<and>
            events w' = events w @ paced_trace net config interval (calls w) n"
proof (induction n arbitrary: rep' cnt' w')
  case 0
  then show ?case by (simp add: paced_trace_0)
next
  case (Suc n)
  obtain rep1 cnt1 w1 where mid:
    "fold (ramp_iteration net config interval) [0..<n] (rep, cnt, w) = (rep1, cnt1, w1)"
    by (cases "fold (ramp_iteration net config interval) [0..<n] (rep, cnt, w)") auto
  with Suc.prems have last: "ramp_iteration net config interval n (rep1, cnt1, w1) = (rep', cnt', w')"
    by simp
  from Suc.IH [OF mid] obtain outs where outs:
    "results rep1 = results rep @ outs" "length outs = n"
    "map status_code outs =
       map (\<lambda>i. reply_status (fst (net (calls w + i) (build_call config None)))) [0..<n]"
    "cnt1 = cnt + int (length (filter is_limited outs))"
    "calls w1 = calls w + n"
    "events w1 = events w @ paced_trace net config interval (calls w) n"
    by blast
  from ramp_iteration_step [OF last] obtain r where r:
    "results rep' = results rep1 @ [r]"
    "status_code r = reply_status (fst (net (calls w1) (build_call config None)))"
    "cnt' = cnt1 + (if is_limited r then 1 else 0)"
    "calls w' = Suc (calls w1)"
    "events w' = events w1 @ Sent n (build_call config None) #
       pause_events interval (snd (net (calls w1) (build_call config None)))"
    by blast
  from outs r have "results rep' = results rep @ (outs @ [r]) \<and> length (outs @ [r]) = Suc n \<and>
       map status_code (outs @ [r]) =
         map (\<lambda>i. reply_status (fst (net (calls w + i) (build_call config None)))) [0..<Suc n] \<and>
       cnt' = cnt + int (length (filter is_limited (outs @ [r]))) \<and>
       calls w' = calls w + Suc n \<and>
       events w' = events w @ paced_trace net config interval (calls w) (Suc n)"
    by (simp add: paced_trace_Suc)
  then show ?case by blast
qed

lemma limit_pct_exceeds:
  assumes "length outs = nat N"
  shows "(20 < (if N \<noteq> 0
                then real_of_int (int (length (filter is_limited outs))) / real_of_int N * 100
                else 0))
         \<longleftrightarrow> exceeds_threshold outs"
proof (cases "0 < N")
  case True
  with assms have len: "real (length outs) = real_of_int N" and ne: "outs \<noteq> []"
    by auto
  from True have "(20 < real (length (filter is_limited outs)) / real_of_int N * 100) \<longleftrightarrow>
      (2 / 10 < real (length (filter is_limited outs)) / real_of_int N)"
    by (simp add: field_simps)
  with True ne show ?thesis by (simp add: exceeds_threshold_def len)
next
  case False
  with assms have "outs = []" by simp
  then show ?thesis by (simp add: exceeds_threshold_def)
qed

lemma requests_of_Finite:
  "round_double (c * d) = Finite p \<Longrightarrow> requests_of (Finite c) d = nat (py_int p)"
  by (simp add: requests_of_def py_int_of_def)

lemma ramp_step_props:
  assumes "current_rps st = Finite c" and "c \<noteq> 0" and "\<not> rate_limit_detected st"
    and "round_double (c * d) = Finite p"
  shows "\<exists>st1 outs. ramp_step net config d s st = Inr st1 \<and>
     results (ramp_report st1) = results (ramp_report st) @ outs \<and>
     length outs = requests_of (Finite c) d \<and>
     map status_code outs =
       map (\<lambda>i. reply_status (fst (net (calls (ramp_world st) + i) (build_call config None))))
           [0..<length outs] \<and>
     current_rps st1 = py_add (Finite c) s \<and>
     rate_limit_detected st1 = exceeds_threshold outs \<and>
     calls (ramp_world st1) = calls (ramp_world st) + length outs \<and>
     traffic (events (ramp_world st1)) =
       traffic (events (ramp_world st)) @
       paced_trace net config (1 / c) (calls (ramp_world st)) (length outs) \<and>
     limit_hits (events (ramp_world st1)) =
       limit_hits (events (ramp_world st)) @
       (if exceeds_threshold outs then [c] else [])"
proof -
  let ?N = "py_int p"
  obtain rep1 cnt1 w1 where run:
    "fold (ramp_iteration net config (1 / c)) [0..<nat ?N]
       (ramp_report st, 0, ramp_world st) = (rep1, cnt1, w1)"
    by (cases "fold (ramp_iteration net config (1 / c)) [0..<nat ?N]
       (ramp_report st, 0, ramp_world st)") auto
  from ramp_fold [OF run] obtain outs where outs:
    "results rep1 = results (ramp_report st) @ outs" "length outs = nat ?N"
    "map status_code outs =
       map (\<lambda>i. reply_status (fst (net (calls (ramp_world st) + i) (build_call config None))))
           [0..<nat ?N]"
    "cnt1 = int (length (filter is_limited outs))"
    "calls w1 = calls (ramp_world st) + nat ?N"
    "events w1 = events (ramp_world st) @
       paced_trace net config (1 / c) (calls (ramp_world st)) (nat ?N)"
    by auto
  from outs(6) have tr: "traffic (events w1) = traffic (events (ramp_world st)) @
       paced_trace net config (1 / c) (calls (ramp_world st)) (nat ?N)"
    and hits: "limit_hits (events w1) = limit_hits (events (ramp_world st))"
    by (simp_all add: traffic_append limit_hits_append paced_trace_traffic)
  from assms(4) have req: "requests_of (Finite c) d = nat ?N"
    by (rule requests_of_Finite)
  let ?pct = "if ?N \<noteq> 0 then real_of_int cnt1 / real_of_int ?N * 100 else 0"
  have pct: "20 < ?pct \<longleftrightarrow> exceeds_threshold outs"
    unfolding outs(4) using outs(2) by (rule limit_pct_exceeds)
  show ?thesis
  proof (cases "exceeds_threshold outs")
    case True
    with pct have hit: "20 < ?pct" by simp
    let ?st1 = "\<lparr>ramp_report = rep1, current_rps = py_add (Finite c) s,
        rate_limit_detected = True,
        ramp_world = print_line (RateLimitHit c ?pct) w1\<rparr>"
    from assms run hit have "ramp_step net config d s st = Inr ?st1"
      by (simp add: ramp_step_def py_int_of_def py_range_def Let_def)
    moreover from outs(1,2,3,5) tr hits req True have
      "results (ramp_report ?st1) = results (ramp_report st) @ outs \<and>
       length outs = requests_of (Finite c) d \<and>
       map status_code outs =
         map (\<lambda>i. reply_status (fst (net (calls (ramp_world st) + i) (build_call config None))))
             [0..<length outs] \<and>
       current_rps ?st1 = py_add (Finite c) s \<and>
       rate_limit_detected ?st1 = exceeds_threshold outs \<and>
       calls (ramp_world ?st1) = calls (ramp_world st) + length outs \<and>
       traffic (events (ramp_world ?st1)) =
         traffic (events (ramp_world st)) @
         paced_trace net config (1 / c) (calls (ramp_world st)) (length outs) \<and>
       limit_hits (events (ramp_world ?st1)) =
         limit_hits (events (ramp_world st)) @
         (if exceeds_threshold outs then [c] else [])"
      by (simp add: print_line_def limit_hits_append traffic_append)
    ultimately show ?thesis by blast
  next
    case False
    with pct have ok: "\<not> 20 < ?pct" by simp
    let ?st1 = "\<lparr>ramp_report = rep1, current_rps = py_add (Finite c) s,
        rate_limit_detected = rate_limit_detected st,
        ramp_world = print_line (RateOK c cnt1 ?N) w1\<rparr>"
    from assms run ok have "ramp_step net config d s st = Inr ?st1"
      by (simp add: ramp_step_def py_int_of_def py_range_def Let_def)
    moreover from outs(1,2,3,5) tr hits req False assms(3) have
      "results (ramp_report ?st1) = results (ramp_report st) @ outs \<and>
       length outs = requests_of (Finite c) d \<and>
       map status_code outs =
         map (\<lambda>i. reply_status (fst (net (calls (ramp_world st) + i) (build_call config None))))
             [0..<length outs] \<and>
       current_rps ?st1 = py_add (Finite c) s \<and>
       rate_limit_detected ?st1 = exceeds_threshold outs \<and>
       calls (ramp_world ?st1) = calls (ramp_world st) + length outs \<and>
       traffic (events (ramp_world ?st1)) =
         traffic (events (ramp_world st)) @
         paced_trace net config (1 / c) (calls (ramp_world st)) (length outs) \<and>
       limit_hits (events (ramp_world ?st1)) =
         limit_hits (events (ramp_world st)) @
         (if exceeds_threshold outs then [c] else [])"
      by (simp add: print_line_def limit_hits_append traffic_append)
    ultimately show ?thesis by blast
  qed
qed

lemma rate_from_shift: "rate_from r s (Suc j) = rate_from (py_add r s) s j"
  by (induction j) simp_all

lemma py_add_positive:
  assumes "min_double \<le> s"
    and "r = PosInf \<or> (\<exists>c. r = Finite c \<and> min_double \<le> c)"
  shows "py_add r s = PosInf \<or> (\<exists>c. py_add r s = Finite c \<and> min_double \<le> c)"
proof (cases r)
  case (Finite c)
  with assms(2) have "min_double \<le> c" by simp
  with assms(1) min_double_pos have "min_double \<le> c + s" by linarith
  from round_double_ge_min [OF this] Finite show ?thesis by simp
qed (use assms(2) in simp_all)

lemma ramp_while_exit:
  "\<not> (py_le (current_rps st) m \<and> \<not> rate_limit_detected st) \<Longrightarrow>
     ramp_while net config m d s st = Some (Inr st)"
  by (subst ramp_while.simps) auto

lemma ramp_while_continue:
  "py_le (current_rps st) m \<Longrightarrow> \<not> rate_limit_detected st \<Longrightarrow>
   ramp_step net config d s st = Inr st1 \<Longrightarrow>
     ramp_while net config m d s st = ramp_while net config m d s st1"
  by (subst ramp_while.simps) simp

lemma ramp_while_steps:
  assumes "min_double \<le> s"
  shows "\<not> py_le (rate_from (current_rps st) s k) m \<Longrightarrow>
     current_rps st = PosInf \<or> (\<exists>c. current_rps st = Finite c \<and> min_double \<le> c) \<Longrightarrow>
     \<not> rate_limit_detected st \<Longrightarrow>
     (\<forall>j<k. \<forall>c. rate_from (current_rps st) s j = Finite c \<longrightarrow> c \<le> m \<longrightarrow>
        (\<exists>p. round_double (c * d) = Finite p)) \<Longrightarrow>
     \<exists>fin steps. ramp_while net config m d s st = Some (Inr fin) \<and>
       length steps \<le> k \<and>
       steps_ok net config s m d (current_rps st) (calls (ramp_world st)) steps \<and>
       results (ramp_report fin) = results (ramp_report st) @ concat (map snd steps) \<and>
       calls (ramp_world fin) = calls (ramp_world st) + length (concat (map snd steps)) \<and>
       traffic (events (ramp_world fin)) =
         traffic (events (ramp_world st)) @ ramp_trace net config (calls (ramp_world st)) steps \<and>
       rate_limit_detected fin = (steps \<noteq> [] \<and> exceeds_threshold (snd (last steps))) \<and>
       limit_hits (events (ramp_world fin)) = limit_hits (events (ramp_world st)) @
          (if rate_limit_detected fin then [fst (last steps)] else []) \<and>
       (\<not> rate_limit_detected fin \<longrightarrow> \<not> py_le (rate_from (current_rps st) s (length steps)) m)"
proof (induction k arbitrary: st)
  case 0
  then have "ramp_while net config m d s st = Some (Inr st)"
    by (simp add: ramp_while_exit)
  with 0 have "ramp_while net config m d s st = Some (Inr st) \<and>
       length ([] :: (real \<times> RequestResult list) list) \<le> 0 \<and>
       steps_ok net config s m d (current_rps st) (calls (ramp_world st)) [] \<and>
       results (ramp_report st) = results (ramp_report st) @ concat (map snd []) \<and>
       calls (ramp_world st) = calls (ramp_world st) + length (concat (map snd [])) \<and>
       traffic (events (ramp_world st)) =
         traffic (events (ramp_world st)) @ ramp_trace net config (calls (ramp_world st)) [] \<and>
       rate_limit_detected st = ([] \<noteq> [] \<and> exceeds_threshold (snd (last []))) \<and>
       limit_hits (events (ramp_world st)) = limit_hits (events (ramp_world st)) @
          (if rate_limit_detected st then [fst (last [])] else []) \<and>
       (\<not> rate_limit_detected st \<longrightarrow> \<not> py_le (rate_from (current_rps st) s (length [])) m)"
    by simp
  then show ?case
    by (intro exI [of _ st] exI [of _ "[]"]) assumption
next
  case (Suc k)
  let ?r = "current_rps st"
  show ?case
  proof (cases "py_le ?r m")
    case False
    then have "ramp_while net config m d s st = Some (Inr st)"
      by (simp add: ramp_while_exit)
    with False Suc.prems(3) have "ramp_while net config m d s st = Some (Inr st) \<and>
       length ([] :: (real \<times> RequestResult list) list) \<le> Suc k \<and>
       steps_ok net config s m d ?r (calls (ramp_world st)) [] \<and>
       results (ramp_report st) = results (ramp_report st) @ concat (map snd []) \<and>
       calls (ramp_world st) = calls (ramp_world st) + length (concat (map snd [])) \<and>
       traffic (events (ramp_world st)) =
         traffic (events (ramp_world st)) @ ramp_trace net config (calls (ramp_world st)) [] \<and>
       rate_limit_detected st = ([] \<noteq> [] \<and> exceeds_threshold (snd (last []))) \<and>
       limit_hits (events (ramp_world st)) = limit_hits (events (ramp_world st)) @
          (if rate_limit_detected st then [fst (last [])] else []) \<and>
       (\<not> rate_limit_detected st \<longrightarrow> \<not> py_le (rate_from ?r s (length [])) m)"
      by simp
    then show ?thesis
      by (intro exI [of _ st] exI [of _ "[]"]) assumption
  next
    case True
    with Suc.prems(2) obtain c where c: "?r = Finite c" "min_double \<le> c" "c \<le> m"
      by auto
    from c(2) min_double_pos have nz: "c \<noteq> 0" by linarith
    note nd = Suc.prems(3)
    from Suc.prems(4) c(1,3) obtain p where p: "round_double (c * d) = Finite p"
      by fastforce
    from ramp_step_props [OF c(1) nz nd p, of net config s] obtain st1 outs where step:
      "ramp_step net config d s st = Inr st1"
      "results (ramp_report st1) = results (ramp_report st) @ outs"
      "length outs = requests_of (Finite c) d"
      "map status_code outs =
         map (\<lambda>i. reply_status (fst (net (calls (ramp_world st) + i) (build_call config None))))
             [0..<length outs]"
      "current_rps st1 = py_add (Finite c) s"
      "rate_limit_detected st1 = exceeds_threshold outs"
      "calls (ramp_world st1) = calls (ramp_world st) + length outs"
      "traffic (events (ramp_world st1)) =
         traffic (events (ramp_world st)) @
         paced_trace net config (1 / c) (calls (ramp_world st)) (length outs)"
      "limit_hits (events (ramp_world st1)) =
         limit_hits (events (ramp_world st)) @ (if exceeds_threshold outs then [c] else [])"
      by blast
    from True nd step(1) have cont:
      "ramp_while net config m d s st = ramp_while net config m d s st1"
      by (rule ramp_while_continue)
    show ?thesis
    proof (cases "exceeds_threshold outs")
      case True
      with step(6) have "ramp_while net config m d s st1 = Some (Inr st1)"
        by (simp add: ramp_while_exit)
      with cont True step c have
        "ramp_while net config m d s st = Some (Inr st1) \<and>
         length [(c, outs)] \<le> Suc k \<and>
         steps_ok net config s m d ?r (calls (ramp_world st)) [(c, outs)] \<and>
         results (ramp_report st1) = results (ramp_report st) @ concat (map snd [(c, outs)]) \<and>
         calls (ramp_world st1) =
           calls (ramp_world st) + length (concat (map snd [(c, outs)])) \<and>
         traffic (events (ramp_world st1)) =
           traffic (events (ramp_world st)) @
           ramp_trace net config (calls (ramp_world st)) [(c, outs)] \<and>
         rate_limit_detected st1 =
           ([(c, outs)] \<noteq> [] \<and> exceeds_threshold (snd (last [(c, outs)]))) \<and>
         limit_hits (events (ramp_world st1)) = limit_hits (events (ramp_world st)) @
            (if rate_limit_detected st1 then [fst (last [(c, outs)])] else []) \<and>
         (\<not> rate_limit_detected st1 \<longrightarrow> \<not> py_le (rate_from ?r s (length [(c, outs)])) m)"
        by simp
      then show ?thesis
        by (intro exI [of _ st1] exI [of _ "[(c, outs)]"]) assumption
    next
      case False
      from step(5) c(1) have next_rate: "current_rps st1 = py_add ?r s" by simp
      from Suc.prems(1) have far: "\<not> py_le (rate_from (current_rps st1) s k) m"
        unfolding next_rate rate_from_shift .
      from py_add_positive [OF assms Suc.prems(2)] have pos:
        "current_rps st1 = PosInf \<or> (\<exists>c. current_rps st1 = Finite c \<and> min_double \<le> c)"
        unfolding next_rate .
      from False step(6) have nd1: "\<not> rate_limit_detected st1" by simp
      have fin1: "\<forall>j<k. \<forall>c. rate_from (current_rps st1) s j = Finite c \<longrightarrow> c \<le> m \<longrightarrow>
          (\<exists>p. round_double (c * d) = Finite p)"
      proof (intro allI impI)
        fix j c'
        assume "j < k" and "rate_from (current_rps st1) s j = Finite c'" and "c' \<le> m"
        then have "Suc j < Suc k" and "rate_from ?r s (Suc j) = Finite c'"
          by (simp_all add: next_rate rate_from_shift del: rate_from.simps(2))
        with Suc.prems(4) \<open>c' \<le> m\<close> show "\<exists>p. round_double (c' * d) = Finite p"
          by blast
      qed
      from Suc.IH [OF far pos nd1 fin1] obtain fin steps where rest:
        "ramp_while net config m d s st1 = Some (Inr fin)"
        "length steps \<le> k"
        "steps_ok net config s m d (current_rps st1) (calls (ramp_world st1)) steps"
        "results (ramp_report fin) = results (ramp_report st1) @ concat (map snd steps)"
        "calls (ramp_world fin) = calls (ramp_world st1) + length (concat (map snd steps))"
        "traffic (events (ramp_world fin)) =
           traffic (events (ramp_world st1)) @
           ramp_trace net config (calls (ramp_world st1)) steps"
        "rate_limit_detected fin = (steps \<noteq> [] \<and> exceeds_threshold (snd (last steps)))"
        "limit_hits (events (ramp_world fin)) = limit_hits (events (ramp_world st1)) @
          (if rate_limit_detected fin then [fst (last steps)] else [])"
        "\<not> rate_limit_detected fin \<longrightarrow> \<not> py_le (rate_from (current_rps st1) s (length steps)) m"
        by blast
      let ?steps = "(c, outs) # steps"
      from rest(2) have len: "length ?steps \<le> Suc k" by simp
      from c(1,3) step(3,4) False rest(3) have ok:
        "steps_ok net config s m d ?r (calls (ramp_world st)) ?steps"
        by (simp add: next_rate step(7))
      from rest(6) step(7,8) have tr:
        "traffic (events (ramp_world fin)) =
           traffic (events (ramp_world st)) @ ramp_trace net config (calls (ramp_world st)) ?steps"
        by simp
      from rest(7) False have det:
        "rate_limit_detected fin = (?steps \<noteq> [] \<and> exceeds_threshold (snd (last ?steps)))"
        by auto
      from rest(7,8) step(9) False have hits:
        "limit_hits (events (ramp_world fin)) = limit_hits (events (ramp_world st)) @
          (if rate_limit_detected fin then [fst (last ?steps)] else [])"
        by auto
      from rest(9) have beyond:
        "\<not> rate_limit_detected fin \<longrightarrow> \<not> py_le (rate_from ?r s (length ?steps)) m"
        by (simp add: next_rate rate_from_shift del: rate_from.simps(2))
      from cont rest(1,4,5) step(2,7) have run:
        "ramp_while net config m d s st = Some (Inr fin)"
        "results (ramp_report fin) = results (ramp_report st) @ concat (map snd ?steps)"
        "calls (ramp_world fin) = calls (ramp_world st) + length (concat (map snd ?steps))"
        by simp_all
      show ?thesis
        by (intro exI [of _ fin] exI [of _ ?steps] conjI)
           (fact run len ok tr det hits beyond)+
    qed
  qed
qed

lemma steps_ok_ConsD:
  assumes "steps_ok net config s m d r k ((c, outs) # steps)"
  shows "r = Finite c" and "c \<le> m" and "length outs = requests_of r d"
    and "map status_code outs =
      map (\<lambda>i. reply_status (fst (net (k + i) (build_call config None)))) [0..<length outs]"
    and "steps \<noteq> [] \<longrightarrow> \<not> exceeds_threshold outs"
    and "steps_ok net config s m d (py_add r s) (k + length outs) steps"
  using assms unfolding steps_ok.simps by blast+

lemma steps_ok_rates:
  "steps_ok net config s m d r k steps \<Longrightarrow>
     map (\<lambda>x. (Finite (fst x), length (snd x))) steps =
     map (\<lambda>j. (rate_from r s j, requests_of (rate_from r s j) d)) [0..<length steps]"
proof (induction steps arbitrary: r k)
  case Nil
  show ?case by simp
next
  case (Cons x steps)
  obtain c outs where x: "x = (c, outs)" by (cases x)
  from Cons.prems have ok: "steps_ok net config s m d r k ((c, outs) # steps)"
    unfolding x .
  note head = steps_ok_ConsD(1,3) [OF ok] and rest = steps_ok_ConsD(6) [OF ok]
  have upt: "[0..<length (x # steps)] = 0 # map Suc [0..<length steps]"
    by (simp add: upt_conv_Cons map_Suc_upt del: upt_Suc)
  from Cons.IH [OF rest] head x show ?case
    unfolding upt by (simp add: rate_from_shift o_def del: rate_from.simps(2))
qed

lemma steps_ok_bound:
  "steps_ok net config s m d r k steps \<Longrightarrow> \<forall>x \<in> set steps. fst x \<le> m"
proof (induction steps arbitrary: r k)
  case Nil
  show ?case by simp
next
  case (Cons x steps)
  obtain c outs where x: "x = (c, outs)" by (cases x)
  from Cons.prems have ok: "steps_ok net config s m d r k ((c, outs) # steps)"
    unfolding x .
  from Cons.IH [OF steps_ok_ConsD(6) [OF ok]] steps_ok_ConsD(2) [OF ok] x
  show ?case by auto
qed

lemma steps_ok_butlast:
  "steps_ok net config s m d r k steps \<Longrightarrow>
     \<forall>x \<in> set (butlast steps). \<not> exceeds_threshold (snd x)"
proof (induction steps arbitrary: r k)
  case Nil
  show ?case by simp
next
  case (Cons x steps)
  obtain c outs where x: "x = (c, outs)" by (cases x)
  from Cons.prems have ok: "steps_ok net config s m d r k ((c, outs) # steps)"
    unfolding x .
  from Cons.IH [OF steps_ok_ConsD(6) [OF ok]] steps_ok_ConsD(5) [OF ok] x
  show ?case by auto
qed

lemma steps_ok_statuses:
  "steps_ok net config s m d r k steps \<Longrightarrow>
     map status_code (concat (map snd steps)) =
     map (\<lambda>i. reply_status (fst (net (k + i) (build_call config None))))
         [0..<length (concat (map snd steps))]"
proof (induction steps arbitrary: r k)
  case Nil
  show ?case by simp
next
  case (Cons x steps)
  obtain c outs where x: "x = (c, outs)" by (cases x)
  let ?n = "length outs" and ?l = "length (concat (map snd steps))"
  from Cons.prems have ok: "steps_ok net config s m d r k ((c, outs) # steps)"
    unfolding x .
  note head = steps_ok_ConsD(4) [OF ok] and rest = steps_ok_ConsD(6) [OF ok]
  from upt_add_eq_append [of 0 ?n ?l] have "[0..<?n + ?l] = [0..<?n] @ [?n..<?n + ?l]"
    by simp
  also from map_add_upt [of ?n ?l] have "[?n..<?n + ?l] = map (\<lambda>i. ?n + i) [0..<?l]"
    by (simp add: add.commute)
  finally have "[0..<?n + ?l] = [0..<?n] @ map (\<lambda>i. ?n + i) [0..<?l]" .
  then have "map (\<lambda>i. reply_status (fst (net (k + i) (build_call config None)))) [0..<?n + ?l] =
      map (\<lambda>i. reply_status (fst (net (k + i) (build_call config None)))) [0..<?n] @
      map (\<lambda>i. reply_status (fst (net (k + ?n + i) (build_call config None)))) [0..<?l]"
    by (simp add: o_def add.assoc)
  with Cons.IH [OF rest] head x show ?case by simp
qed

lemma ramp_run:
  assumes "0 < s" and "is_double s"
    and "\<not> py_le (rate_at s K) m"
    and "\<forall>j<K. \<forall>c. rate_at s j = Finite c \<longrightarrow> c \<le> m \<longrightarrow>
           (\<exists>p. round_double (c * d) = Finite p)"
  shows "\<exists>report w' steps.
     run_ramp_test net config m d s w = Some (Inr report, w') \<and>
     length steps \<le> K \<and>
     map (\<lambda>x. (Finite (fst x), length (snd x))) steps =
       map (\<lambda>j. (rate_at s j, requests_at s d j)) [0..<length steps] \<and>
     (\<forall>x \<in> set steps. fst x \<le> m) \<and>
     results report = concat (map snd steps) \<and>
     map status_code (results report) =
       map (\<lambda>i. reply_status (fst (net (calls w + i) (build_call config None))))
           [0..<length (results report)] \<and>
     calls w' = calls w + length (results report) \<and>
     traffic (events w') = traffic (events w) @ ramp_trace net config (calls w) steps \<and>
     (\<forall>x \<in> set (butlast steps). \<not> exceeds_threshold (snd x)) \<and>
     (if steps \<noteq> [] \<and> exceeds_threshold (snd (last steps))
      then limit_hits (events w') = limit_hits (events w) @ [fst (last steps)]
      else limit_hits (events w') = limit_hits (events w) \<and>
           \<not> py_le (rate_at s (length steps)) m)"
proof -
  let ?st = "\<lparr>ramp_report = \<lparr>results = [], start_time = clock w, end_time = 0\<rparr>,
              current_rps = Finite s, rate_limit_detected = False, ramp_world = w\<rparr>"
  from is_double_ge_min [OF assms(2,1)] have ms: "min_double \<le> s" .
  from assms(3) have far: "\<not> py_le (rate_from (current_rps ?st) s K) m"
    by (simp add: rate_at_def)
  from ms have pos:
    "current_rps ?st = PosInf \<or> (\<exists>c. current_rps ?st = Finite c \<and> min_double \<le> c)"
    by simp
  have nd: "\<not> rate_limit_detected ?st" by simp
  from assms(4) have fin: "\<forall>j<K. \<forall>c. rate_from (current_rps ?st) s j = Finite c \<longrightarrow> c \<le> m \<longrightarrow>
      (\<exists>p. round_double (c * d) = Finite p)"
    by (simp add: rate_at_def)
  from ramp_while_steps [OF ms far pos nd fin, of net config] obtain fin steps where raw:
    "ramp_while net config m d s ?st = Some (Inr fin)"
    "length steps \<le> K"
    "steps_ok net config s m d (current_rps ?st) (calls (ramp_world ?st)) steps"
    "results (ramp_report fin) = results (ramp_report ?st) @ concat (map snd steps)"
    "calls (ramp_world fin) = calls (ramp_world ?st) + length (concat (map snd steps))"
    "traffic (events (ramp_world fin)) =
       traffic (events (ramp_world ?st)) @ ramp_trace net config (calls (ramp_world ?st)) steps"
    "rate_limit_detected fin = (steps \<noteq> [] \<and> exceeds_threshold (snd (last steps)))"
    "limit_hits (events (ramp_world fin)) = limit_hits (events (ramp_world ?st)) @
          (if rate_limit_detected fin then [fst (last steps)] else [])"
    "\<not> rate_limit_detected fin \<longrightarrow> \<not> py_le (rate_from (current_rps ?st) s (length steps)) m"
    by blast
  from raw(3) have ok: "steps_ok net config s m d (Finite s) (calls w) steps" by simp
  let ?report = "(ramp_report fin)\<lparr>end_time := clock (ramp_world fin)\<rparr>"
  from raw(1) have res:
    "run_ramp_test net config m d s w = Some (Inr ?report, ramp_world fin)"
    by (simp add: run_ramp_test_def Let_def)
  from steps_ok_rates [OF ok] have rates:
    "map (\<lambda>x. (Finite (fst x), length (snd x))) steps =
       map (\<lambda>j. (rate_at s j, requests_at s d j)) [0..<length steps]"
    by (simp add: rate_at_def requests_at_def)
  note bound = steps_ok_bound [OF ok] and quiet = steps_ok_butlast [OF ok]
  from raw(4) have rep: "results ?report = concat (map snd steps)" by simp
  from steps_ok_statuses [OF ok] have sts: "map status_code (results ?report) =
       map (\<lambda>i. reply_status (fst (net (calls w + i) (build_call config None))))
           [0..<length (results ?report)]"
    unfolding rep .
  from raw(5) have cl: "calls (ramp_world fin) = calls w + length (results ?report)"
    unfolding rep by simp
  from raw(6) have tr: "traffic (events (ramp_world fin)) =
      traffic (events w) @ ramp_trace net config (calls w) steps"
    by simp
  from raw(7,8,9) have fate:
    "if steps \<noteq> [] \<and> exceeds_threshold (snd (last steps))
      then limit_hits (events (ramp_world fin)) = limit_hits (events w) @ [fst (last steps)]
      else limit_hits (events (ramp_world fin)) = limit_hits (events w) \<and>
           \<not> py_le (rate_at s (length steps)) m"
    by (simp add: rate_at_def)
  show ?thesis
    by (intro exI [of _ ?report] exI [of _ "ramp_world fin"] exI [of _ steps] conjI)
       (fact res raw(2) rates bound rep sts cl tr quiet fate)+
qed

text \<open>The rounded rates and request counts of a ramp with step size 0.1 and step duration
  10, and those of a ramp with step size 2 and step duration 1.\<close>

lemma one_tenth_double: "round_double (one_tenth) = Finite (3602879701896397 / 36028797018963968)"
proof (rule round_double_finiteI)
  show "one_tenth \<noteq> (0::real)" by (simp add: one_tenth_def)
  show "float_exponent (one_tenth) = - 4" by code_simp
  show "1 / 2 ^ 56 = pow2 (max (- 4) (- 1022) - 52)" by (simp add: pow2_def)
  show "round_half_even ((one_tenth) / (1 / 2 ^ 56)) = 7205759403792794"
    by (simp add: round_half_even_def Let_def one_tenth_def)
  show "(3602879701896397 / 36028797018963968 :: real) = of_int (7205759403792794) * (1 / 2 ^ 56)" by simp
  show "(3602879701896397 / 36028797018963968 :: real) < pow2 1024" by (simp add: pow2_def)
  show "- pow2 1024 < (3602879701896397 / 36028797018963968 :: real)" by (simp add: pow2_def)
qed

lemma tenth_sum_1: "round_double (one_tenth + one_tenth) = Finite (3602879701896397 / 18014398509481984)"
proof (rule round_double_finiteI)
  show "one_tenth + one_tenth \<noteq> (0::real)" by (simp add: one_tenth_def)
  show "float_exponent (one_tenth + one_tenth) = - 3" by code_simp
  show "1 / 2 ^ 55 = pow2 (max (- 3) (- 1022) - 52)" by (simp add: pow2_def)
  show "round_half_even ((one_tenth + one_tenth) / (1 / 2 ^ 55)) = 7205759403792794"
    by (simp add: round_half_even_def Let_def one_tenth_def)
  show "(3602879701896397 / 18014398509481984 :: real) = of_int (7205759403792794) * (1 / 2 ^ 55)" by simp
  show "(3602879701896397 / 18014398509481984 :: real) < pow2 1024" by (simp add: pow2_def)
  show "- pow2 1024 < (3602879701896397 / 18014398509481984 :: real)" by (simp add: pow2_def)
qed

lemma tenth_sum_2: "round_double (3602879701896397 / 18014398509481984 + one_tenth) = Finite (1351079888211149 / 4503599627370496)"
proof (rule round_double_finiteI)
  show "3602879701896397 / 18014398509481984 + one_tenth \<noteq> (0::real)" by (simp add: one_tenth_def)
  show "float_exponent (3602879701896397 / 18014398509481984 + one_tenth) = - 2" by code_simp
  show "1 / 2 ^ 54 = pow2 (max (- 2) (- 1022) - 52)" by (simp add: pow2_def)
  show "round_half_even ((3602879701896397 / 18014398509481984 + one_tenth) / (1 / 2 ^ 54)) = 5404319552844596"
    by (simp add: round_half_even_def Let_def one_tenth_def)
  show "(1351079888211149 / 4503599627370496 :: real) = of_int (5404319552844596) * (1 / 2 ^ 54)" by simp
  show "(1351079888211149 / 4503599627370496 :: real) < pow2 1024" by (simp add: pow2_def)
  show "- pow2 1024 < (1351079888211149 / 4503599627370496 :: real)" by (simp add: pow2_def)
qed

lemma tenth_sum_3: "round_double (1351079888211149 / 4503599627370496 + one_tenth) = Finite (3602879701896397 / 9007199254740992)"
proof (rule round_double_finiteI)
  show "1351079888211149 / 4503599627370496 + one_tenth \<noteq> (0::real)" by (simp add: one_tenth_def)
  show "float_exponent (1351079888211149 / 4503599627370496 + one_tenth) = - 2" by code_simp
  show "1 / 2 ^ 54 = pow2 (max (- 2) (- 1022) - 52)" by (simp add: pow2_def)
  show "round_half_even ((1351079888211149 / 4503599627370496 + one_tenth) / (1 / 2 ^ 54)) = 7205759403792794"
    by (simp add: round_half_even_def Let_def one_tenth_def)
  show "(3602879701896397 / 9007199254740992 :: real) = of_int (7205759403792794) * (1 / 2 ^ 54)" by simp
  show "(3602879701896397 / 9007199254740992 :: real) < pow2 1024" by (simp add: pow2_def)
  show "- pow2 1024 < (3602879701896397 / 9007199254740992 :: real)" by (simp add: pow2_def)
qed

lemma tenth_sum_4: "round_double (3602879701896397 / 9007199254740992 + one_tenth) = Finite (1 / 2)"
proof (rule round_double_finiteI)
  show "3602879701896397 / 9007199254740992 + one_tenth \<noteq> (0::real)" by (simp add: one_tenth_def)
  show "float_exponent (3602879701896397 / 9007199254740992 + one_tenth) = - 1" by code_simp
  show "1 / 2 ^ 53 = pow2 (max (- 1) (- 1022) - 52)" by (simp add: pow2_def)
  show "round_half_even ((3602879701896397 / 9007199254740992 + one_tenth) / (1 / 2 ^ 53)) = 4503599627370496"
    by (simp add: round_half_even_def Let_def one_tenth_def)
  show "(1 / 2 :: real) = of_int (4503599627370496) * (1 / 2 ^ 53)" by simp
  show "(1 / 2 :: real) < pow2 1024" by (simp add: pow2_def)
  show "- pow2 1024 < (1 / 2 :: real)" by (simp add: pow2_def)
qed

lemma tenth_sum_5: "round_double (1 / 2 + one_tenth) = Finite (5404319552844595 / 9007199254740992)"
proof (rule round_double_finiteI)
  show "1 / 2 + one_tenth \<noteq> (0::real)" by (simp add: one_tenth_def)
  show "float_exponent (1 / 2 + one_tenth) = - 1" by code_simp
  show "1 / 2 ^ 53 = pow2 (max (- 1) (- 1022) - 52)" by (simp add: pow2_def)
  show "round_half_even ((1 / 2 + one_tenth) / (1 / 2 ^ 53)) = 5404319552844595"
    by (simp add: round_half_even_def Let_def one_tenth_def)
  show "(5404319552844595 / 9007199254740992 :: real) = of_int (5404319552844595) * (1 / 2 ^ 53)" by simp
  show "(5404319552844595 / 9007199254740992 :: real) < pow2 1024" by (simp add: pow2_def)
  show "- pow2 1024 < (5404319552844595 / 9007199254740992 :: real)" by (simp add: pow2_def)
qed

lemma tenth_product_0: "round_double (one_tenth * 10) = Finite (1)"
proof (rule round_double_finiteI)
  show "one_tenth * 10 \<noteq> (0::real)" by (simp add: one_tenth_def)
  show "float_exponent (one_tenth * 10) = 0" by code_simp
  show "1 / 2 ^ 52 = pow2 (max (0) (- 1022) - 52)" by (simp add: pow2_def)
  show "round_half_even ((one_tenth * 10) / (1 / 2 ^ 52)) = 4503599627370496"
    by (simp add: round_half_even_def Let_def one_tenth_def)
  show "(1 :: real) = of_int (4503599627370496) * (1 / 2 ^ 52)" by simp
  show "(1 :: real) < pow2 1024" by (simp add: pow2_def)
  show "- pow2 1024 < (1 :: real)" by (simp add: pow2_def)
qed

lemma tenth_product_1: "round_double (3602879701896397 / 18014398509481984 * 10) = Finite (2)"
proof (rule round_double_finiteI)
  show "3602879701896397 / 18014398509481984 * 10 \<noteq> (0::real)" by (simp add: one_tenth_def)
  show "float_exponent (3602879701896397 / 18014398509481984 * 10) = 1" by code_simp
  show "1 / 2 ^ 51 = pow2 (max (1) (- 1022) - 52)" by (simp add: pow2_def)
  show "round_half_even ((3602879701896397 / 18014398509481984 * 10) / (1 / 2 ^ 51)) = 4503599627370496"
    by (simp add: round_half_even_def Let_def one_tenth_def)
  show "(2 :: real) = of_int (4503599627370496) * (1 / 2 ^ 51)" by simp
  show "(2 :: real) < pow2 1024" by (simp add: pow2_def)
  show "- pow2 1024 < (2 :: real)" by (simp add: pow2_def)
qed

lemma tenth_product_2: "round_double (1351079888211149 / 4503599627370496 * 10) = Finite (6755399441055745 / 2251799813685248)"
proof (rule round_double_finiteI)
  show "1351079888211149 / 4503599627370496 * 10 \<noteq> (0::real)" by (simp add: one_tenth_def)
  show "float_exponent (1351079888211149 / 4503599627370496 * 10) = 1" by code_simp
  show "1 / 2 ^ 51 = pow2 (max (1) (- 1022) - 52)" by (simp add: pow2_def)
  show "round_half_even ((1351079888211149 / 4503599627370496 * 10) / (1 / 2 ^ 51)) = 6755399441055745"
    by (simp add: round_half_even_def Let_def one_tenth_def)
  show "(6755399441055745 / 2251799813685248 :: real) = of_int (6755399441055745) * (1 / 2 ^ 51)" by simp
  show "(6755399441055745 / 2251799813685248 :: real) < pow2 1024" by (simp add: pow2_def)
  show "- pow2 1024 < (6755399441055745 / 2251799813685248 :: real)" by (simp add: pow2_def)
qed

lemma tenth_product_3: "round_double (3602879701896397 / 9007199254740992 * 10) = Finite (4)"
proof (rule round_double_finiteI)
  show "3602879701896397 / 9007199254740992 * 10 \<noteq> (0::real)" by (simp add: one_tenth_def)
  show "float_exponent (3602879701896397 / 9007199254740992 * 10) = 2" by code_simp
  show "1 / 2 ^ 50 = pow2 (max (2) (- 1022) - 52)" by (simp add: pow2_def)
  show "round_half_even ((3602879701896397 / 9007199254740992 * 10) / (1 / 2 ^ 50)) = 4503599627370496"
    by (simp add: round_half_even_def Let_def one_tenth_def)
  show "(4 :: real) = of_int (4503599627370496) * (1 / 2 ^ 50)" by simp
  show "(4 :: real) < pow2 1024" by (simp add: pow2_def)
  show "- pow2 1024 < (4 :: real)" by (simp add: pow2_def)
qed

lemma tenth_product_4: "round_double (1 / 2 * 10) = Finite (5)"
proof (rule round_double_finiteI)
  show "1 / 2 * 10 \<noteq> (0::real)" by (simp add: one_tenth_def)
  show "float_exponent (1 / 2 * 10) = 2" by code_simp
  show "1 / 2 ^ 50 = pow2 (max (2) (- 1022) - 52)" by (simp add: pow2_def)
  show "round_half_even ((1 / 2 * 10) / (1 / 2 ^ 50)) = 5629499534213120"
    by (simp add: round_half_even_def Let_def one_tenth_def)
  show "(5 :: real) = of_int (5629499534213120) * (1 / 2 ^ 50)" by simp
  show "(5 :: real) < pow2 1024" by (simp add: pow2_def)
  show "- pow2 1024 < (5 :: real)" by (simp add: pow2_def)
qed

lemma round_double_2: "round_double (2) = Finite (2)"
proof (rule round_double_finiteI)
  show "2 \<noteq> (0::real)" by (simp)
  show "float_exponent (2) = 1" by code_simp
  show "1 / 2 ^ 51 = pow2 (max (1) (- 1022) - 52)" by (simp add: pow2_def)
  show "round_half_even ((2) / (1 / 2 ^ 51)) = 4503599627370496"
    by (simp add: round_half_even_def Let_def)
  show "(2 :: real) = of_int (4503599627370496) * (1 / 2 ^ 51)" by simp
  show "(2 :: real) < pow2 1024" by (simp add: pow2_def)
  show "- pow2 1024 < (2 :: real)" by (simp add: pow2_def)
qed

lemma round_double_4: "round_double (4) = Finite (4)"
proof (rule round_double_finiteI)
  show "4 \<noteq> (0::real)" by (simp)
  show "float_exponent (4) = 2" by code_simp
  show "1 / 2 ^ 50 = pow2 (max (2) (- 1022) - 52)" by (simp add: pow2_def)
  show "round_half_even ((4) / (1 / 2 ^ 50)) = 4503599627370496"
    by (simp add: round_half_even_def Let_def)
  show "(4 :: real) = of_int (4503599627370496) * (1 / 2 ^ 50)" by simp
  show "(4 :: real) < pow2 1024" by (simp add: pow2_def)
  show "- pow2 1024 < (4 :: real)" by (simp add: pow2_def)
qed

lemma round_double_6: "round_double (6) = Finite (6)"
proof (rule round_double_finiteI)
  show "6 \<noteq> (0::real)" by (simp)
  show "float_exponent (6) = 2" by code_simp
  show "1 / 2 ^ 50 = pow2 (max (2) (- 1022) - 52)" by (simp add: pow2_def)
  show "round_half_even ((6) / (1 / 2 ^ 50)) = 6755399441055744"
    by (simp add: round_half_even_def Let_def)
  show "(6 :: real) = of_int (6755399441055744) * (1 / 2 ^ 50)" by simp
  show "(6 :: real) < pow2 1024" by (simp add: pow2_def)
  show "- pow2 1024 < (6 :: real)" by (simp add: pow2_def)
qed

lemma rate_at_0: "rate_at s 0 = Finite s"
  by (simp add: rate_at_def)

lemma rate_at_step:
  "rate_at s j = Finite c \<Longrightarrow> round_double (c + s) = Finite c' \<Longrightarrow> Suc j = k \<Longrightarrow>
     rate_at s k = Finite c'"
  by (auto simp: rate_at_def)

lemma requests_at_step:
  "rate_at s j = Finite c \<Longrightarrow> round_double (c * d) = Finite p \<Longrightarrow> nat \<lfloor>p\<rfloor> = n \<Longrightarrow>
     requests_at s d j = n"
  by (simp add: requests_at_def requests_of_Finite nat_py_int)

lemma finite_productI:
  "rate_at s j = Finite c0 \<Longrightarrow> round_double (c0 * d) = Finite p0 \<Longrightarrow>
     \<forall>c. rate_at s j = Finite c \<longrightarrow> c \<le> m \<longrightarrow> (\<exists>p. round_double (c * d) = Finite p)"
  by simp

lemma all_less_5: "P 0 \<Longrightarrow> P 1 \<Longrightarrow> P 2 \<Longrightarrow> P 3 \<Longrightarrow> P 4 \<Longrightarrow> \<forall>j<5::nat. P j"
proof (intro allI impI)
  fix j :: nat
  assume "P 0" "P 1" "P 2" "P 3" "P 4" and "j < 5"
  from \<open>j < 5\<close> have "j = 0 \<or> j = 1 \<or> j = 2 \<or> j = 3 \<or> j = 4" by linarith
  with \<open>P 0\<close> \<open>P 1\<close> \<open>P 2\<close> \<open>P 3\<close> \<open>P 4\<close> show "P j" by auto
qed

lemma all_less_2: "P 0 \<Longrightarrow> P 1 \<Longrightarrow> \<forall>j<2::nat. P j"
proof (intro allI impI)
  fix j :: nat
  assume "P 0" "P 1" and "j < 2"
  from \<open>j < 2\<close> have "j = 0 \<or> j = 1" by linarith
  with \<open>P 0\<close> \<open>P 1\<close> show "P j" by auto
qed

lemma tenth_rates:
  "rate_at one_tenth 0 = Finite one_tenth"
  "rate_at one_tenth 1 = Finite (3602879701896397 / 18014398509481984)"
  "rate_at one_tenth 2 = Finite (1351079888211149 / 4503599627370496)"
  "rate_at one_tenth 3 = Finite (3602879701896397 / 9007199254740992)"
  "rate_at one_tenth 4 = Finite (1 / 2)"
  "rate_at one_tenth 5 = Finite (5404319552844595 / 9007199254740992)"
proof -
  show r0: "rate_at one_tenth 0 = Finite one_tenth" by (rule rate_at_0)
  show r1: "rate_at one_tenth 1 = Finite (3602879701896397 / 18014398509481984)"
    by (rule rate_at_step [OF r0 tenth_sum_1]) simp
  show r2: "rate_at one_tenth 2 = Finite (1351079888211149 / 4503599627370496)"
    by (rule rate_at_step [OF r1 tenth_sum_2]) simp
  show r3: "rate_at one_tenth 3 = Finite (3602879701896397 / 9007199254740992)"
    by (rule rate_at_step [OF r2 tenth_sum_3]) simp
  show r4: "rate_at one_tenth 4 = Finite (1 / 2)"
    by (rule rate_at_step [OF r3 tenth_sum_4]) simp
  show "rate_at one_tenth 5 = Finite (5404319552844595 / 9007199254740992)"
    by (rule rate_at_step [OF r4 tenth_sum_5]) simp
qed

lemma tenth_requests:
  "requests_at one_tenth 10 0 = 1"
  "requests_at one_tenth 10 1 = 2"
  "requests_at one_tenth 10 2 = 3"
  "requests_at one_tenth 10 3 = 4"
  "requests_at one_tenth 10 4 = 5"
proof -
  show "requests_at one_tenth 10 0 = 1"
    by (rule requests_at_step [OF tenth_rates(1) tenth_product_0]) simp
  show "requests_at one_tenth 10 1 = 2"
    by (rule requests_at_step [OF tenth_rates(2) tenth_product_1]) simp
  show "requests_at one_tenth 10 2 = 3"
    by (rule requests_at_step [OF tenth_rates(3) tenth_product_2]) simp
  show "requests_at one_tenth 10 3 = 4"
    by (rule requests_at_step [OF tenth_rates(4) tenth_product_3]) simp
  show "requests_at one_tenth 10 4 = 5"
    by (rule requests_at_step [OF tenth_rates(5) tenth_product_4]) simp
qed

lemma upt_0_5: "[0..<5] = [0, 1, 2, 3, 4]"
  by code_simp

lemma steps_total:
  assumes "map (\<lambda>x. (Finite (fst x), length (snd x))) steps =
      map (\<lambda>j. (rate_at s j, requests_at s d j)) [0..<length steps]"
  shows "length (concat (map snd steps)) = sum_list (map (requests_at s d) [0..<length steps])"
proof -
  have "map length (map snd steps) =
      map snd (map (\<lambda>x. (Finite (fst x), length (snd x))) steps)"
    by simp
  also have "\<dots> = map (requests_at s d) [0..<length steps]"
    unfolding assms by (simp add: o_def)
  finally show ?thesis by (simp add: length_concat)
qed

lemma quiet_steps:
  assumes "map status_code (concat (map snd steps)) = map (\<lambda>i. 200) idxs"
  shows "\<forall>x \<in> set steps. \<not> exceeds_threshold (snd x)"
proof
  fix x
  assume x: "x \<in> set steps"
  have "status_code r = 200" if "r \<in> set (snd x)" for r
  proof -
    from that x have "status_code r \<in> set (map status_code (concat (map snd steps)))"
      by auto
    then show ?thesis unfolding assms by auto
  qed
  then have "filter is_limited (snd x) = []"
    by (auto simp: filter_empty_conv is_limited_def)
  then show "\<not> exceeds_threshold (snd x)"
    by (simp add: exceeds_threshold_def)
qed

text \<open>
  Claim C3, as stated: the steps run at the rates \<open>s, 2s, 3s, ...\<close> and the run ends
  after the last step whose rate is at most \<open>m\<close>. It fails at the step size 0.1 (the
  double \<open>3602879701896397 / 2^55\<close>), ceiling 0.5 and step duration 10: five times
  the step size exceeds the ceiling, so the claim's run has the four steps \<open>s\<close> to
  \<open>4s\<close> with 10 requests; the code adds the step size with rounding, its fifth rate
  is the double 0.5, not \<open>5s\<close>, and it runs five steps with 15 requests.
\<close>

theorem ramp_rates_counterexample:
  "(\<exists>report w'. run_ramp_test steady_network probe_config (1 / 2) 10 one_tenth idle_world =
        Some (Inr report, w') \<and> length (results report) = 15) \<and>
   rate_at one_tenth 4 = Finite (1 / 2) \<and> 1 / 2 < 5 * one_tenth \<and>
   sum_list (map (\<lambda>k. nat \<lfloor>real k * one_tenth * 10\<rfloor>) [1, 2, 3, 4]) = 10"
proof -
  have pos: "0 < one_tenth" by (simp add: one_tenth_def)
  have dbl: "is_double one_tenth"
    using one_tenth_double unfolding is_double_def by (simp add: one_tenth_def)
  have stop: "\<not> py_le (rate_at one_tenth 5) (1 / 2)"
    unfolding tenth_rates by simp
  have fin: "\<forall>j<5. \<forall>c. rate_at one_tenth j = Finite c \<longrightarrow> c \<le> 1 / 2 \<longrightarrow>
      (\<exists>p. round_double (c * 10) = Finite p)"
    by (rule all_less_5)
       (rule finite_productI [OF tenth_rates(1) tenth_product_0]
             finite_productI [OF tenth_rates(2) tenth_product_1]
             finite_productI [OF tenth_rates(3) tenth_product_2]
             finite_productI [OF tenth_rates(4) tenth_product_3]
             finite_productI [OF tenth_rates(5) tenth_product_4])+
  from ramp_run [OF pos dbl stop fin, of steady_network probe_config idle_world]
  obtain report w' steps where run:
    "run_ramp_test steady_network probe_config (1 / 2) 10 one_tenth idle_world =
       Some (Inr report, w')"
    "length steps \<le> 5"
    "map (\<lambda>x. (Finite (fst x), length (snd x))) steps =
       map (\<lambda>j. (rate_at one_tenth j, requests_at one_tenth 10 j)) [0..<length steps]"
    "results report = concat (map snd steps)"
    "map status_code (results report) =
       map (\<lambda>i. reply_status (fst (steady_network (calls idle_world + i)
              (build_call probe_config None)))) [0..<length (results report)]"
    "if steps \<noteq> [] \<and> exceeds_threshold (snd (last steps))
      then limit_hits (events w') = limit_hits (events idle_world) @ [fst (last steps)]
      else limit_hits (events w') = limit_hits (events idle_world) \<and>
           \<not> py_le (rate_at one_tenth (length steps)) (1 / 2)"
    by blast
  from run(5) have "map status_code (concat (map snd steps)) =
      map (\<lambda>i. 200) [0..<length (results report)]"
    unfolding run(4) by (simp add: steady_network_def)
  then have quiet: "\<forall>x \<in> set steps. \<not> exceeds_threshold (snd x)"
    by (rule quiet_steps)
  have "\<not> (steps \<noteq> [] \<and> exceeds_threshold (snd (last steps)))"
    using quiet last_in_set [of steps] by auto
  with run(6) have beyond: "\<not> py_le (rate_at one_tenth (length steps)) (1 / 2)"
    by simp
  have within: "\<forall>j<5. py_le (rate_at one_tenth j) (1 / 2)"
    by (rule all_less_5; unfold tenth_rates; simp add: one_tenth_def)
  from beyond within run(2) have len: "length steps = 5"
    by (metis le_neq_implies_less)
  from steps_total [OF run(3)] have "length (results report) = 15"
    unfolding run(4) len upt_0_5 list.map tenth_requests by simp
  with run(1) have "\<exists>report w'.
      run_ramp_test steady_network probe_config (1 / 2) 10 one_tenth idle_world =
        Some (Inr report, w') \<and> length (results report) = 15"
    by blast
  moreover have "1 / 2 < 5 * one_tenth" by (simp add: one_tenth_def)
  moreover have "sum_list (map (\<lambda>k. nat \<lfloor>real k * one_tenth * 10\<rfloor>) [1, 2, 3, 4]) = 10"
    by (simp add: one_tenth_def)
  ultimately show ?thesis using tenth_rates(5) by (intro conjI)
qed

text \<open>
  Claim C3, amended. Let the step size \<open>s > 0\<close> be a double, and let the rate of step
  \<open>j\<close> be \<open>s\<close> with \<open>s\<close> added \<open>j\<close> times, every sum rounded to the nearest double.
  Provided these rates pass the ceiling \<open>m\<close> after finitely many steps and no step
  within the ceiling has an infinite request count, the ramp run returns, and there is
  a list of steps (rate, outcomes) such that: the rate of the j-th step is the j-th
  rounded rate, none above \<open>m\<close>, and it holds \<open>int (rate * d)\<close> outcomes, the product
  rounded to a double; the report is the concatenation of all step outcomes, which are
  the replies to the calls in call order, and no call beyond them was made; the requests
  and sleeps of the run are those of the steps in order, each step a paced loop at the
  interval \<open>1 / rate\<close>; no step but the last has a limited fraction over 0.20. Either
  the last step is over 0.20, and the run reports a rate limit at that rate (detected),
  or no step is, the run reports none, and the next rounded rate exceeds \<open>m\<close>
  (exhausted).
\<close>

theorem run_ramp_test_steps:
  assumes "0 < s" and "is_double s"
    and "\<not> py_le (rate_at s K) m"
    and "\<forall>j<K. \<forall>c. rate_at s j = Finite c \<longrightarrow> c \<le> m \<longrightarrow>
           (\<exists>p. round_double (c * d) = Finite p)"
  shows "\<exists>report w' steps.
     run_ramp_test net config m d s w = Some (Inr report, w') \<and>
     length steps \<le> K \<and>
     map (\<lambda>x. (Finite (fst x), length (snd x))) steps =
       map (\<lambda>j. (rate_at s j, requests_at s d j)) [0..<length steps] \<and>
     (\<forall>x \<in> set steps. fst x \<le> m) \<and>
     results report = concat (map snd steps) \<and>
     map status_code (results report) =
       map (\<lambda>i. reply_status (fst (net (calls w + i) (build_call config None))))
           [0..<length (results report)] \<and>
     calls w' = calls w + length (results report) \<and>
     traffic (events w') = traffic (events w) @ ramp_trace net config (calls w) steps \<and>
     (\<forall>x \<in> set (butlast steps). \<not> exceeds_threshold (snd x)) \<and>
     (if steps \<noteq> [] \<and> exceeds_threshold (snd (last steps))
      then limit_hits (events w') = limit_hits (events w) @ [fst (last steps)]
      else limit_hits (events w') = limit_hits (events w) \<and>
           \<not> py_le (rate_at s (length steps)) m)"
  using assms by (rule ramp_run)

lemma limiting_run:
  "ramp_summary (run_ramp_test limiting_network probe_config 4 1 2 idle_world) =
     Some ([200, 200, 429, 429, 429, 429],
           [Sent 0 (build_call probe_config None), Slept (1 / 2),
            Sent 1 (build_call probe_config None), Slept (1 / 2),
            Sent 0 (build_call probe_config None), Slept (1 / 4),
            Sent 1 (build_call probe_config None), Slept (1 / 4),
            Sent 2 (build_call probe_config None), Slept (1 / 4),
            Sent 3 (build_call probe_config None), Slept (1 / 4)],
           [4])"
  by (simp add: ramp_summary_def run_ramp_test_def ramp_while.simps ramp_step_def
        ramp_iteration_def send_request_def limiting_network_def idle_world_def pace_def
        sleep_def print_line_def py_int_of_def py_int_def py_range_def is_limited_def Let_def
        round_double_2 round_double_4 round_double_6 eval_nat_numeral)

theorem run_ramp_test_steps_witness:
  "\<exists>report w' steps.
     run_ramp_test limiting_network probe_config 4 1 2 idle_world = Some (Inr report, w') \<and>
     results report = concat (map snd steps) \<and>
     map status_code (results report) = [200, 200, 429, 429, 429, 429] \<and>
     steps \<noteq> [] \<and> exceeds_threshold (snd (last steps)) \<and> fst (last steps) = (4::real) \<and>
     traffic (events w') = ramp_trace limiting_network probe_config 0 steps \<and>
     traffic (events w') =
       [Sent 0 (build_call probe_config None), Slept (1 / 2),
        Sent 1 (build_call probe_config None), Slept (1 / 2),
        Sent 0 (build_call probe_config None), Slept (1 / 4),
        Sent 1 (build_call probe_config None), Slept (1 / 4),
        Sent 2 (build_call probe_config None), Slept (1 / 4),
        Sent 3 (build_call probe_config None), Slept (1 / 4)] \<and>
     limit_hits (events w') = [4]"
proof -
  have pos: "(0::real) < 2" by simp
  have dbl: "is_double 2"
    unfolding is_double_def by (rule round_double_2)
  have r0: "rate_at 2 0 = Finite 2" by (rule rate_at_0)
  have r1: "rate_at 2 1 = Finite 4"
    by (rule rate_at_step [OF r0, of 4]) (simp_all add: round_double_4)
  have r2: "rate_at 2 2 = Finite 6"
    by (rule rate_at_step [OF r1, of 6]) (simp_all add: round_double_6)
  have p0: "round_double (2 * 1) = Finite 2" by (simp add: round_double_2)
  have p1: "round_double (4 * 1) = Finite 4" by (simp add: round_double_4)
  have stop: "\<not> py_le (rate_at 2 2) 4"
    unfolding r2 by simp
  have fin: "\<forall>j<2. \<forall>c. rate_at 2 j = Finite c \<longrightarrow> c \<le> 4 \<longrightarrow>
      (\<exists>p. round_double (c * 1) = Finite p)"
    by (rule all_less_2)
       (rule finite_productI [OF r0 p0] finite_productI [OF r1 p1])+
  from run_ramp_test_steps [OF pos dbl stop fin, of limiting_network probe_config idle_world]
  obtain report w' steps where run:
    "run_ramp_test limiting_network probe_config 4 1 2 idle_world = Some (Inr report, w')"
    "results report = concat (map snd steps)"
    "traffic (events w') =
       traffic (events idle_world) @ ramp_trace limiting_network probe_config
         (calls idle_world) steps"
    "if steps \<noteq> [] \<and> exceeds_threshold (snd (last steps))
      then limit_hits (events w') = limit_hits (events idle_world) @ [fst (last steps)]
      else limit_hits (events w') = limit_hits (events idle_world) \<and>
           \<not> py_le (rate_at 2 (length steps)) 4"
    by blast
  from run(1) limiting_run have seen:
    "map status_code (results report) = [200, 200, 429, 429, 429, 429]"
    "traffic (events w') =
       [Sent 0 (build_call probe_config None), Slept (1 / 2),
        Sent 1 (build_call probe_config None), Slept (1 / 2),
        Sent 0 (build_call probe_config None), Slept (1 / 4),
        Sent 1 (build_call probe_config None), Slept (1 / 4),
        Sent 2 (build_call probe_config None), Slept (1 / 4),
        Sent 3 (build_call probe_config None), Slept (1 / 4)]"
    "limit_hits (events w') = [4]"
    by (simp_all add: ramp_summary_def)
  from run(4) seen(3) have last:
    "steps \<noteq> [] \<and> exceeds_threshold (snd (last steps)) \<and> fst (last steps) = 4"
    by (simp add: idle_world_def split: if_splits)
  from run(3) have tr: "traffic (events w') = ramp_trace limiting_network probe_config 0 steps"
    by (simp add: idle_world_def)
  from run(1,2) seen last tr show ?thesis
    by (intro exI [of _ report] exI [of _ w'] exI [of _ steps]) simp
qed

subsection \<open>Comparison run\<close>

lemma conclusions_append: "conclusions (xs @ ys) = conclusions xs @ conclusions ys"
  by (induction xs rule: conclusions.induct) simp_all

lemma pace_conclusions: "conclusions (events (pace interval t w)) = conclusions (events w)"
  by (simp add: pace_def sleep_def Let_def conclusions_append)

lemma send_request_conclusions:
  "conclusions (events (snd (send_request net config i t w))) = conclusions (events w)"
  by (simp add: send_request_world conclusions_append)

lemma same_iteration_step:
  assumes "same_iteration net config interval t i (rs, w) = (rs', w')"
  shows "length rs' = Suc (length rs) \<and> take (length rs) rs' = rs \<and>
         conclusions (events w') = conclusions (events w)"
proof -
  obtain r w1 where sent: "send_request net config i (Some t) w = (r, w1)"
    by (cases "send_request net config i (Some t) w")
  with send_request_conclusions [of net config i "Some t" w]
  have "conclusions (events w1) = conclusions (events w)" by simp
  moreover from assms sent have "rs' = rs @ [r]" "w' = pace interval (clock w) w1"
    by (simp_all add: same_iteration_def Let_def)
  ultimately show ?thesis by (simp add: pace_conclusions)
qed

lemma same_fold:
  "fold (same_iteration net config interval t) [0..<n] (rs, w) = (rs', w') \<Longrightarrow>
     length rs' = length rs + n \<and> conclusions (events w') = conclusions (events w)"
proof (induction n arbitrary: rs' w')
  case 0
  then show ?case by simp
next
  case (Suc n)
  obtain rs1 w1 where mid:
    "fold (same_iteration net config interval t) [0..<n] (rs, w) = (rs1, w1)"
    by (cases "fold (same_iteration net config interval t) [0..<n] (rs, w)")
  with Suc.prems have last: "same_iteration net config interval t n (rs1, w1) = (rs', w')"
    by simp
  from Suc.IH [OF mid] same_iteration_step [OF last] show ?case by simp
qed

lemma rotating_phase_runs:
  assumes "terms \<noteq> []"
  shows "\<exists>rs' w'. rotating_phase net config interval terms idxs (rs, w) = Inr (rs', w') \<and>
     length rs' = length rs + length idxs \<and>
     conclusions (events w') = conclusions (events w)"
proof (induction idxs arbitrary: rs w)
  case Nil
  show ?case by simp
next
  case (Cons i rest)
  let ?t = "terms ! (i mod length terms)"
  obtain r w1 where sent: "send_request net config i (Some ?t) w = (r, w1)"
    by (cases "send_request net config i (Some ?t) w")
  with send_request_conclusions [of net config i "Some ?t" w]
  have kept: "conclusions (events (pace interval (clock w) w1)) = conclusions (events w)"
    by (simp add: pace_conclusions)
  from assms have sel: "select_term terms i = Inr ?t"
    by (simp add: select_term_def)
  have step: "rotating_phase net config interval terms (i # rest) (rs, w) =
      rotating_phase net config interval terms rest (rs @ [r], pace interval (clock w) w1)"
    by (simp add: sel sent)
  from Cons [of "rs @ [r]" "pace interval (clock w) w1"] kept
  show ?case unfolding step by auto
qed

text \<open>
  The comparison run applies the classification to the counts of its two phases: with a
  rate other than 0 and \<open>num_each > 0\<close> it returns the merged report of
  \<open>2 * num_each\<close> outcomes and prints the conclusion of the limited counts of the
  first and the second half, or nothing when the chain yields none.
\<close>

lemma run_same_vs_unique_test_conclusion:
  assumes "rps \<noteq> 0" and "0 < num_each"
  shows "\<exists>report w'. run_same_vs_unique_test net config num_each rps w = Inr (report, w') \<and>
     length (results report) = 2 * nat num_each \<and>
     conclusions (events w') = conclusions (events w) @
       (case comparison_conclusion
               (count_limited (take (nat num_each) (results report)))
               (count_limited (drop (nat num_each) (results report))) of
          None \<Rightarrow> [] | Some c \<Rightarrow> [c])"
proof -
  let ?n = "nat num_each"
  obtain same w1 where p1:
    "fold (same_iteration net config (1 / rps) ''bill tracker'') [0..<?n] ([], w) = (same, w1)"
    by (cases "fold (same_iteration net config (1 / rps) ''bill tracker'') [0..<?n] ([], w)")
  from same_fold [OF p1] have same: "length same = ?n"
    "conclusions (events w1) = conclusions (events w)" by simp_all
  have pool: "large_pool \<noteq> []" by (simp add: large_pool_def)
  from rotating_phase_runs [OF pool, of net config "1 / rps" "[0..<?n]" "[]" "sleep 3 w1"]
  obtain uniq w3 where p2:
    "rotating_phase net config (1 / rps) large_pool [0..<?n] ([], sleep 3 w1) = Inr (uniq, w3)"
    "length uniq = ?n" "conclusions (events w3) = conclusions (events (sleep 3 w1))"
    by auto
  from p2(3) same(2) have kept: "conclusions (events w3) = conclusions (events w)"
    by (simp add: sleep_def conclusions_append)
  let ?w4 = "case comparison_conclusion (count_limited same) (count_limited uniq) of
               None \<Rightarrow> w3 | Some c \<Rightarrow> print_line (Conclusion c) w3"
  let ?report = "\<lparr>results = same @ uniq,
                   start_time = (case same of [] \<Rightarrow> 0 | r # rs \<Rightarrow> timestamp r),
                   end_time = clock ?w4\<rparr>"
  from assms p1 p2(1) have run:
    "run_same_vs_unique_test net config num_each rps w = Inr (?report, ?w4)"
    by (simp add: run_same_vs_unique_test_def py_range_def Let_def)
  from kept have printed: "conclusions (events ?w4) = conclusions (events w) @
       (case comparison_conclusion (count_limited same) (count_limited uniq) of
          None \<Rightarrow> [] | Some c \<Rightarrow> [c])"
    by (simp add: print_line_def conclusions_append split: option.splits)
  from same(1) p2(2) have parts: "take ?n (results ?report) = same"
    "drop ?n (results ?report) = uniq" "length (results ?report) = 2 * ?n"
    by simp_all
  from run printed parts show ?thesis by simp
qed

end
